theory Spec2Isabelle
  imports Complex_Main "HOL-Library.Log_Nat" "HOL-Library.Sublist"
begin

section \<open>JavaScript numbers\<close>

text \<open>
  A JavaScript \<open>number\<close> is an IEEE 754 binary64 value. A finite value is modelled by the
  rational number it denotes, the two infinities and NaN are constructors of their own. The two
  zeros are not told apart: \<open>Fin 0\<close> stands for both (\<open>toString\<close>, \<open>toFixed\<close>, the comparisons
  and \<open>||\<close> do not distinguish them either). Every arithmetic operation computes the exact
  rational result and rounds it to the nearest binary64 value, ties to even (\<open>fl\<close>).
\<close>

datatype jsnum = Fin rat | PInf | NInf | NaN

definition pow2 :: "int \<Rightarrow> rat" where
  "pow2 e = (if 0 \<le> e then 2 ^ nat e else 1 / 2 ^ nat (- e))"

definition pow10 :: "int \<Rightarrow> rat" where
  "pow10 e = (if 0 \<le> e then 10 ^ nat e else 1 / 10 ^ nat (- e))"

text \<open>\<open>ilog2 r\<close> is the binary exponent of a positive rational: \<open>2^e \<le> r < 2^(e+1)\<close>.\<close>

definition ilog2 :: "rat \<Rightarrow> int" where
  "ilog2 r = (if 1 \<le> r then bitlen \<lfloor>r\<rfloor> - 1 else - bitlen (\<lceil>1 / r\<rceil> - 1))"

definition round_half_even :: "rat \<Rightarrow> int" where
  "round_half_even x = (let f = \<lfloor>x\<rfloor>; d = x - of_int f
     in if d < 1/2 then f else if 1/2 < d then f + 1 else if even f then f else f + 1)"

text \<open>
  Rounding to binary64: 53 significant bits, the least exponent of a unit in the last place
  is \<open>-1074\<close> (subnormal numbers), and a result of magnitude \<open>2^1024\<close> or more is an infinity.
\<close>

definition fl :: "rat \<Rightarrow> jsnum" where
  "fl r = (if r = 0 then Fin 0 else
     let a = \<bar>r\<bar>; e = ilog2 a; q = max (e - 52) (- 1074);
         m = round_half_even (a / pow2 q)
     in if 1024 \<le> e \<or> (e = 1023 \<and> m = 2 ^ 53) then (if r < 0 then NInf else PInf)
        else Fin (if r < 0 then - (of_int m * pow2 q) else of_int m * pow2 q))"

text \<open>
  The shape of a finite result: zero, or \<open>m * 2^q\<close> with at most 53 bits in \<open>m\<close>, the
  exponent \<open>q\<close> in range, and \<open>m\<close> with exactly 53 bits unless the number is subnormal.
\<close>

definition binary64_grid :: "int \<Rightarrow> int \<Rightarrow> bool" where
  "binary64_grid m q = (1 \<le> m \<and> m \<le> 2 ^ 53 \<and> - 1074 \<le> q \<and> q \<le> 971
     \<and> (m < 2 ^ 53 \<or> q < 971) \<and> (2 ^ 52 \<le> m \<or> q = - 1074))"

definition isNaN :: "jsnum \<Rightarrow> bool" where
  "isNaN v = (v = NaN)"

definition isFinite :: "jsnum \<Rightarrow> bool" where
  "isFinite v = (case v of Fin x \<Rightarrow> True | _ \<Rightarrow> False)"

text \<open>\<open>Number.isInteger\<close>.\<close>

definition isInteger :: "jsnum \<Rightarrow> bool" where
  "isInteger v = (case v of Fin x \<Rightarrow> x = of_int \<lfloor>x\<rfloor> | _ \<Rightarrow> False)"

text \<open>The operators \<open>+\<close>, \<open>-\<close> (unary), \<open>*\<close> and \<open>/\<close> on numbers.\<close>

fun jadd :: "jsnum \<Rightarrow> jsnum \<Rightarrow> jsnum" where
  "jadd NaN b = NaN"
| "jadd a NaN = NaN"
| "jadd PInf NInf = NaN"
| "jadd NInf PInf = NaN"
| "jadd PInf b = PInf"
| "jadd a PInf = PInf"
| "jadd NInf b = NInf"
| "jadd a NInf = NInf"
| "jadd (Fin a) (Fin b) = fl (a + b)"

fun jneg :: "jsnum \<Rightarrow> jsnum" where
  "jneg NaN = NaN"
| "jneg PInf = NInf"
| "jneg NInf = PInf"
| "jneg (Fin a) = Fin (- a)"

definition jsub :: "jsnum \<Rightarrow> jsnum \<Rightarrow> jsnum" where
  "jsub a b = jadd a (jneg b)"

text \<open>The sign of a number that is not NaN; a zero counts as positive.\<close>

definition negative :: "jsnum \<Rightarrow> bool" where
  "negative v = (case v of Fin x \<Rightarrow> x < 0 | NInf \<Rightarrow> True | _ \<Rightarrow> False)"

definition signed_inf :: "bool \<Rightarrow> jsnum" where
  "signed_inf neg = (if neg then NInf else PInf)"

definition jmul :: "jsnum \<Rightarrow> jsnum \<Rightarrow> jsnum" where
  "jmul a b =
     (if a = NaN \<or> b = NaN then NaN
      else case (a, b) of
        (Fin x, Fin y) \<Rightarrow> fl (x * y)
      | _ \<Rightarrow> if a = Fin 0 \<or> b = Fin 0 then NaN else signed_inf (negative a \<noteq> negative b))"

text \<open>
  Division. A zero divisor is taken as \<open>+0\<close>: the program divides by the literals 100 and
  1000 only.
\<close>

definition jdiv :: "jsnum \<Rightarrow> jsnum \<Rightarrow> jsnum" where
  "jdiv a b =
     (if a = NaN \<or> b = NaN then NaN
      else case (a, b) of
        (Fin x, Fin y) \<Rightarrow>
          if y = 0 then (if x = 0 then NaN else signed_inf (x < 0)) else fl (x / y)
      | (Fin x, _) \<Rightarrow> Fin 0
      | (_, Fin y) \<Rightarrow> signed_inf (negative a \<noteq> negative b)
      | _ \<Rightarrow> NaN)"

text \<open>The comparison \<open>a < b\<close>: false as soon as an operand is NaN.\<close>

fun jless :: "jsnum \<Rightarrow> jsnum \<Rightarrow> bool" where
  "jless NaN b = False"
| "jless a NaN = False"
| "jless PInf b = False"
| "jless a NInf = False"
| "jless NInf b = True"
| "jless a PInf = True"
| "jless (Fin a) (Fin b) = (a < b)"

text \<open>\<open>Math.max(a, b)\<close>.\<close>

definition Math_max :: "jsnum \<Rightarrow> jsnum \<Rightarrow> jsnum" where
  "Math_max a b = (if a = NaN \<or> b = NaN then NaN else if jless a b then b else a)"

text \<open>\<open>x || 0\<close> on a number: NaN and zero are falsy.\<close>

definition or_zero :: "jsnum \<Rightarrow> jsnum" where
  "or_zero v = (if v = NaN \<or> v = Fin 0 then Fin 0 else v)"

section \<open>Strings and the conversions between numbers and strings\<close>

text \<open>
  A JavaScript string is a sequence of UTF-16 code units. The model covers the strings
  whose code units are below 256, one \<open>char\<close> per code unit; the calculator's glyphs for
  multiplication (U+00D7) and division (U+00F7) are among them.
\<close>

definition is_digit :: "char \<Rightarrow> bool" where
  "is_digit c = (c \<in> set ''0123456789'')"

text \<open>White space and line terminators below 256: what \<open>\s\<close> matches and what \<open>parseFloat\<close> skips.\<close>

definition is_space :: "char \<Rightarrow> bool" where
  "is_space c = (c \<in> set [CHR 0x09, CHR 0x0A, CHR 0x0B, CHR 0x0C, CHR 0x0D, CHR 0x20, CHR 0xA0])"

text \<open>
  Decimal digits. Integers that may be large are of type \<open>int\<close> throughout, so that the
  definitions evaluate on binary numerals.
\<close>

definition digit_char :: "int \<Rightarrow> char" where
  "digit_char d = ''0123456789'' ! nat d"

definition digit_val :: "char \<Rightarrow> int" where
  "digit_val c = int (of_char c) - 48"

function show_int :: "int \<Rightarrow> string" where
  "show_int n = (if n < 10 then [digit_char n] else show_int (n div 10) @ [digit_char (n mod 10)])"
  by pat_completeness auto
termination
  by (relation "measure nat") auto

declare show_int.simps [simp del]

definition read_int :: "string \<Rightarrow> int" where
  "read_int ds = foldl (\<lambda>a c. 10 * a + digit_val c) 0 ds"

text \<open>\<open>String.prototype.includes\<close>.\<close>

definition includes_str :: "string \<Rightarrow> string \<Rightarrow> bool" where
  "includes_str s v = sublist v s"

subsection \<open>Number to string\<close>

text \<open>The number of decimal digits of a positive integer (0 for 0).\<close>

function ndigits :: "int \<Rightarrow> int" where
  "ndigits n = (if n \<le> 0 then 0 else 1 + ndigits (n div 10))"
  by pat_completeness auto
termination
  by (relation "measure nat") auto

declare ndigits.simps [simp del]

text \<open>\<open>dec_exp x\<close> is the decimal exponent of a positive rational: \<open>10^(n-1) \<le> x < 10^n\<close>.\<close>

definition dec_exp :: "rat \<Rightarrow> int" where
  "dec_exp x = (if 1 \<le> x then ndigits \<lfloor>x\<rfloor> else 1 - ndigits (\<lceil>1 / x\<rceil> - 1))"

text \<open>
  \<open>Number::toString\<close> takes integers \<open>n\<close>, \<open>k\<close> and \<open>s\<close> with \<open>k \<ge> 1\<close>,
  \<open>10^(k-1) \<le> s < 10^k\<close>, such that \<open>s * 10^(n-k)\<close> rounds to the number and \<open>k\<close> is as small
  as possible; of two such \<open>s\<close> the one closer to the number. \<open>digits_k x n0 k\<close> is the
  choice of \<open>(s, n)\<close> for a given \<open>k\<close>, when one exists: only the two decimals of \<open>k\<close> digits
  that enclose \<open>x\<close> can round to it.
\<close>

definition digits_k :: "rat \<Rightarrow> int \<Rightarrow> int \<Rightarrow> (int \<times> int) option" where
  "digits_k x n0 k =
     (let u = pow10 (n0 - k); t = x / u; lo = \<lfloor>t\<rfloor>; hi = lo + 1;
          ok_lo = (fl (of_int lo * u) = Fin x); ok_hi = (fl (of_int hi * u) = Fin x);
          dlo = t - of_int lo; dhi = of_int hi - t;
          pick_hi = (ok_hi \<and> (\<not> ok_lo \<or> dhi < dlo \<or> (dhi = dlo \<and> even hi)))
      in if pick_hi then (if hi = 10 ^ nat k then Some (10 ^ nat (k - 1), n0 + 1) else Some (hi, n0))
         else if ok_lo then Some (lo, n0) else None)"

text \<open>
  The least \<open>k\<close> from \<open>k\<close> on. The exact decimal expansion of a binary64 value has fewer
  than 1400 digits, so the search stops there.
\<close>

function shortest :: "rat \<Rightarrow> int \<Rightarrow> int \<Rightarrow> (int \<times> int \<times> int) option" where
  "shortest x n0 k = (if 1400 \<le> k then None else
     (case digits_k x n0 k of Some (s, n) \<Rightarrow> Some (k, s, n) | None \<Rightarrow> shortest x n0 (k + 1)))"
  by pat_completeness auto
termination
  by (relation "measure (\<lambda>(x, n0, k). nat (1400 - k))") auto

declare shortest.simps [simp del]

definition render :: "int \<Rightarrow> int \<Rightarrow> int \<Rightarrow> string" where
  "render k s n =
     (let ds = show_int s in
      if k \<le> n \<and> n \<le> 21 then ds @ replicate (nat (n - k)) CHR ''0''
      else if 0 < n \<and> n \<le> 21 then take (nat n) ds @ ''.'' @ drop (nat n) ds
      else if - 6 < n \<and> n \<le> 0 then ''0.'' @ replicate (nat (- n)) CHR ''0'' @ ds
      else (if k = 1 then ds else take 1 ds @ ''.'' @ drop 1 ds)
           @ ''e'' @ (if n - 1 < 0 then ''-'' else ''+'') @ show_int \<bar>n - 1\<bar>)"

definition toString_pos :: "rat \<Rightarrow> string" where
  "toString_pos x = (case shortest x (dec_exp x) 1 of
       Some (k, s, n) \<Rightarrow> render k s n | None \<Rightarrow> ''NaN'')"

fun toString :: "jsnum \<Rightarrow> string" where
  "toString NaN = ''NaN''"
| "toString PInf = ''Infinity''"
| "toString NInf = ''-Infinity''"
| "toString (Fin x) =
     (if x = 0 then ''0'' else if x < 0 then ''-'' @ toString_pos (- x) else toString_pos x)"

text \<open>
  \<open>Number.prototype.toFixed(f)\<close>: the integer \<open>n\<close> with \<open>n / 10^f\<close> closest to the magnitude
  (the larger one of two), its digits padded to \<open>f + 1\<close> digits, the point before the last
  \<open>f\<close> digits. A magnitude of \<open>10^21\<close> or more, an infinity and NaN are printed by \<open>toString\<close>.
\<close>

definition toFixed :: "jsnum \<Rightarrow> nat \<Rightarrow> string" where
  "toFixed v f = (case v of
       Fin x \<Rightarrow>
         if pow10 21 \<le> \<bar>x\<bar> then toString v
         else let n = \<lfloor>\<bar>x\<bar> * 10 ^ f + 1 / 2\<rfloor>;
                  m = show_int n;
                  z = (if length m \<le> f then replicate (f + 1 - length m) CHR ''0'' @ m else m);
                  m' = (if f \<noteq> 0 then take (length z - f) z @ ''.'' @ drop (length z - f) z else m)
              in (if x < 0 then ''-'' else '''') @ m'
     | _ \<Rightarrow> toString v)"

subsection \<open>String to number\<close>

text \<open>The exponent part at the head of a string (\<open>e\<close> or \<open>E\<close>, a sign, digits); 0 without one.\<close>

definition parse_exponent :: "string \<Rightarrow> int" where
  "parse_exponent r =
     (case r of
        [] \<Rightarrow> 0
      | c # r1 \<Rightarrow>
          if c = CHR ''e'' \<or> c = CHR ''E'' then
            (case r1 of
               [] \<Rightarrow> 0
             | s # r2 \<Rightarrow>
                 if s = CHR ''-'' then - read_int (takeWhile is_digit r2)
                 else if s = CHR ''+'' then read_int (takeWhile is_digit r2)
                 else read_int (takeWhile is_digit r1))
          else 0)"

text \<open>
  \<open>parseFloat\<close>: leading white space is skipped, the longest prefix that is a decimal
  literal (a sign, then \<open>Infinity\<close> or digits with an optional fraction and exponent) is
  read, and its value is rounded; NaN when there is no such prefix.
\<close>

definition parseFloat :: "string \<Rightarrow> jsnum" where
  "parseFloat str =
    (let t = dropWhile is_space str;
         neg = (t \<noteq> [] \<and> hd t = CHR ''-'');
         u = (if t \<noteq> [] \<and> (hd t = CHR ''-'' \<or> hd t = CHR ''+'') then tl t else t)
     in if prefix ''Infinity'' u then signed_inf neg
        else let ip = takeWhile is_digit u; r1 = dropWhile is_digit u;
                 dot = (r1 \<noteq> [] \<and> hd r1 = CHR ''.'');
                 fp = (if dot then takeWhile is_digit (tl r1) else []);
                 r2 = (if dot then dropWhile is_digit (tl r1) else r1)
             in if ip = [] \<and> fp = [] then NaN
                else let mant = of_int (read_int ip) + of_int (read_int fp) / 10 ^ length fp;
                         v = mant * pow10 (parse_exponent r2)
                     in fl (if neg then - v else v))"

section \<open>Objects used as records of numbers\<close>

text \<open>
  A \<open>Record<string, number>\<close> is the list of its own properties in creation order, with
  distinct keys. \<open>Object.entries\<close> lists the keys that are array indices first, in ascending
  numeric order, then the other keys in creation order. An assignment to the key
  \<open>__proto__\<close> of a plain object creates no property.
\<close>

type_synonym jsobject = "(string \<times> jsnum) list"

definition is_array_index :: "string \<Rightarrow> bool" where
  "is_array_index k =
     (k \<noteq> [] \<and> list_all is_digit k \<and> (k = ''0'' \<or> hd k \<noteq> CHR ''0'') \<and> read_int k < 4294967295)"

definition obj_set :: "jsobject \<Rightarrow> string \<Rightarrow> jsnum \<Rightarrow> jsobject" where
  "obj_set ob k v =
     (if k = ''__proto__'' then ob
      else if map_of ob k \<noteq> None then map (\<lambda>(k', v'). if k' = k then (k', v) else (k', v')) ob
      else ob @ [(k, v)])"

definition object_entries :: "jsobject \<Rightarrow> (string \<times> jsnum) list" where
  "object_entries ob =
     sort_key (\<lambda>(k, v). read_int k) (filter (\<lambda>(k, v). is_array_index k) ob)
     @ filter (\<lambda>(k, v). \<not> is_array_index k) ob"

section \<open>The JavaScript runtime\<close>

text \<open>
  A value is a number or something else (\<open>typeof\<close> other than \<open>'number'\<close>: \<open>undefined\<close>,
  a string, an object).
\<close>

datatype jsval = JNumber jsnum | JOther

text \<open>
  The program hands strings to three services of the runtime. They are parameters of the
  model, and \<open>None\<close> is a thrown exception:
  \<^item> \<open>regexp_replace_all src s r\<close> is \<open>s.replace(new RegExp(src, 'g'), r)\<close>;
  \<^item> \<open>call_function body\<close> is \<open>new Function(body)()\<close>;
  \<^item> \<open>eval_source src\<close> is \<open>eval(src)\<close>.
  The general theorems hold for every runtime. The examples run on \<open>reference_runtime\<close>,
  which implements a fragment of each service.
\<close>

record runtime =
  regexp_replace_all :: "string \<Rightarrow> string \<Rightarrow> string \<Rightarrow> string option"
  call_function :: "string \<Rightarrow> jsval option"
  eval_source :: "string \<Rightarrow> jsval option"

text \<open>What a service of the reference runtime does on an input.\<close>

datatype 'a outcome = Returns 'a | Throws | Unmodelled

definition to_option :: "'a outcome \<Rightarrow> 'a option" where
  "to_option r = (case r of Returns x \<Rightarrow> Some x | _ \<Rightarrow> None)"

subsection \<open>Regular expressions: literal characters and \<open>?\<close>\<close>

text \<open>
  The fragment: a pattern is a sequence of word characters, each optionally followed by
  \<open>?\<close>; the replacement holds no \<open>$\<close>. Every other pattern is outside the fragment.
\<close>

definition is_word_char :: "char \<Rightarrow> bool" where
  "is_word_char c =
     (c \<in> set ''abcdefghijklmnopqrstuvwxyzABCDEFGHIJKLMNOPQRSTUVWXYZ0123456789_'')"

fun parse_pattern :: "string \<Rightarrow> (char \<times> bool) list option" where
  "parse_pattern [] = Some []"
| "parse_pattern [c] = (if is_word_char c then Some [(c, False)] else None)"
| "parse_pattern (c # d # rest) =
     (if \<not> is_word_char c then None
      else if d = CHR ''?'' then map_option (\<lambda>ps. (c, True) # ps) (parse_pattern rest)
      else map_option (\<lambda>ps. (c, False) # ps) (parse_pattern (d # rest)))"

text \<open>
  The length of the match at the head of the string: an optional character is taken when
  that leads to a match, and left out otherwise.
\<close>

fun match_here :: "(char \<times> bool) list \<Rightarrow> string \<Rightarrow> nat option" where
  "match_here [] s = Some 0"
| "match_here ((c, opt) # ps) [] = (if opt then match_here ps [] else None)"
| "match_here ((c, opt) # ps) (x # xs) =
     (if x = c then
        (case match_here ps xs of
           Some n \<Rightarrow> Some (Suc n)
         | None \<Rightarrow> if opt then match_here ps (x # xs) else None)
      else if opt then match_here ps (x # xs) else None)"

text \<open>
  Replacing every match, left to right; \<open>skip\<close> counts the characters of the last match
  still to pass. After an empty match the next character is copied.
\<close>

fun replace_matches :: "(char \<times> bool) list \<Rightarrow> string \<Rightarrow> nat \<Rightarrow> string \<Rightarrow> string" where
  "replace_matches ps r skip [] = (if match_here ps [] = None then [] else r)"
| "replace_matches ps r skip (x # xs) =
     (if 0 < skip then replace_matches ps r (skip - 1) xs
      else case match_here ps (x # xs) of
             None \<Rightarrow> x # replace_matches ps r 0 xs
           | Some 0 \<Rightarrow> r @ x # replace_matches ps r 0 xs
           | Some (Suc n) \<Rightarrow> r @ replace_matches ps r n xs)"

definition regexp_fragment :: "string \<Rightarrow> string \<Rightarrow> string \<Rightarrow> string outcome" where
  "regexp_fragment src s r =
     (case parse_pattern src of
        None \<Rightarrow> Unmodelled
      | Some ps \<Rightarrow> if CHR ''$'' \<in> set r then Unmodelled else Returns (replace_matches ps r 0 s))"

subsection \<open>Expressions: numbers, \<open>+ - * /\<close> and parentheses\<close>

text \<open>
  The fragment: decimal literals without exponent, the binary operators \<open>+ - * /\<close>, unary
  \<open>+\<close> and \<open>-\<close>, parentheses, and white space within a line. Outside the fragment are line
  terminators, a literal with a leading zero before another digit, two operator characters
  that form \<open>++\<close>, \<open>--\<close>, \<open>**\<close>, \<open>//\<close> or \<open>/*\<close>, a \<open>/\<close> where an operand is expected (a regular
  expression literal), a parenthesis after an operand (a call), a division by zero (its
  result depends on the sign of the zero), and every other character.
\<close>

datatype tok = TNum jsnum | TOp char | TLParen | TRParen

text \<open>
  A maximal run of digits and points is one literal (digits, digits with a fraction, or a
  fraction alone), or a syntax error.
\<close>

definition number_token :: "string \<Rightarrow> tok outcome" where
  "number_token run =
     (let ip = takeWhile is_digit run; r1 = dropWhile is_digit run;
          fp = (if r1 = [] then [] else tl r1)
      in if 1 < length ip \<and> hd ip = CHR ''0'' then Unmodelled
         else if \<not> list_all is_digit fp \<or> (ip = [] \<and> fp = []) then Throws
         else Returns (TNum (fl (of_int (read_int ip) + of_int (read_int fp) / 10 ^ length fp))))"

definition flush :: "string \<Rightarrow> tok list outcome \<Rightarrow> tok list outcome" where
  "flush run rest =
     (if run = [] then rest
      else case number_token run of
             Unmodelled \<Rightarrow> Unmodelled
           | Throws \<Rightarrow> (case rest of Unmodelled \<Rightarrow> Unmodelled | _ \<Rightarrow> Throws)
           | Returns t \<Rightarrow> (case rest of Returns ts \<Rightarrow> Returns (t # ts) | r \<Rightarrow> r))"

definition cons_tok :: "tok \<Rightarrow> tok list outcome \<Rightarrow> tok list outcome" where
  "cons_tok t rest = (case rest of Returns ts \<Rightarrow> Returns (t # ts) | r \<Rightarrow> r)"

fun lex :: "string \<Rightarrow> string \<Rightarrow> tok list outcome" where
  "lex run [] = flush run (Returns [])"
| "lex run (c # cs) =
     (if is_digit c \<or> c = CHR ''.'' then lex (run @ [c]) cs
      else flush run
        (if c \<in> set [CHR 0x09, CHR 0x0B, CHR 0x0C, CHR 0x20, CHR 0xA0] then lex [] cs
         else if c = CHR ''('' then cons_tok TLParen (lex [] cs)
         else if c = CHR '')'' then cons_tok TRParen (lex [] cs)
         else if c \<in> set ''+-*/'' then
           (if cs \<noteq> [] \<and> [c, hd cs] \<in> set [''++'', ''--'', ''**'', ''//'', ''/*''] then Unmodelled
            else cons_tok (TOp c) (lex [] cs))
         else Unmodelled))"

datatype expr = Lit jsnum | Neg expr | Pos expr | Bin char expr expr

datatype opr = Binary char | UMinus | UPlus | Paren

fun prec :: "opr \<Rightarrow> nat" where
  "prec Paren = 0"
| "prec (Binary c) = (if c = CHR ''*'' \<or> c = CHR ''/'' then 2 else 1)"
| "prec UMinus = 3"
| "prec UPlus = 3"

text \<open>Applying the operators on the stack whose precedence is at least \<open>p\<close>.\<close>

fun reduce :: "nat \<Rightarrow> opr list \<Rightarrow> expr list \<Rightarrow> (opr list \<times> expr list) option" where
  "reduce p [] vals = Some ([], vals)"
| "reduce p (opr # ops) vals =
     (if prec opr < p \<or> opr = Paren then Some (opr # ops, vals)
      else case (opr, vals) of
             (Binary c, b # a # vs) \<Rightarrow> reduce p ops (Bin c a b # vs)
           | (UMinus, a # vs) \<Rightarrow> reduce p ops (Neg a # vs)
           | (UPlus, a # vs) \<Rightarrow> reduce p ops (Pos a # vs)
           | _ \<Rightarrow> None)"

text \<open>
  Operator precedence parsing; \<open>operand\<close> tells whether an operand is expected next.
\<close>

fun parse :: "tok list \<Rightarrow> bool \<Rightarrow> opr list \<Rightarrow> expr list \<Rightarrow> expr outcome" where
  "parse [] operand ops vals =
     (if operand then Throws
      else case reduce 1 ops vals of
             Some ([], [e]) \<Rightarrow> Returns e
           | _ \<Rightarrow> Throws)"
| "parse (TNum v # ts) operand ops vals =
     (if operand then parse ts False ops (Lit v # vals) else Throws)"
| "parse (TOp c # ts) operand ops vals =
     (if operand then
        (if c = CHR ''+'' then parse ts True (UPlus # ops) vals
         else if c = CHR ''-'' then parse ts True (UMinus # ops) vals
         else if c = CHR ''/'' then Unmodelled
         else Throws)
      else case reduce (prec (Binary c)) ops vals of
             Some (ops', vals') \<Rightarrow> parse ts True (Binary c # ops') vals'
           | None \<Rightarrow> Throws)"
| "parse (TLParen # ts) operand ops vals =
     (if operand then parse ts True (Paren # ops) vals else Unmodelled)"
| "parse (TRParen # ts) operand ops vals =
     (if operand then Throws
      else case reduce 1 ops vals of
             Some (Paren # ops', vals') \<Rightarrow> parse ts False ops' vals'
           | _ \<Rightarrow> Throws)"

fun eval_expr :: "expr \<Rightarrow> jsnum option" where
  "eval_expr (Lit v) = Some v"
| "eval_expr (Pos a) = eval_expr a"
| "eval_expr (Neg a) = map_option jneg (eval_expr a)"
| "eval_expr (Bin c a b) =
     (case (eval_expr a, eval_expr b) of
        (Some x, Some y) \<Rightarrow>
          if c = CHR ''+'' then Some (jadd x y)
          else if c = CHR ''-'' then Some (jsub x y)
          else if c = CHR ''*'' then Some (jmul x y)
          else if y = Fin 0 then None
          else Some (jdiv x y)
      | _ \<Rightarrow> None)"

text \<open>The value of a source text that is an expression, or empty (\<open>undefined\<close>).\<close>

definition js_expression :: "string \<Rightarrow> jsval outcome" where
  "js_expression src =
     (case lex [] src of
        Unmodelled \<Rightarrow> Unmodelled
      | Throws \<Rightarrow> Throws
      | Returns ts \<Rightarrow>
          if ts = [] then Returns JOther
          else case parse ts True [] [] of
                 Unmodelled \<Rightarrow> Unmodelled
               | Throws \<Rightarrow> Throws
               | Returns e \<Rightarrow>
                   (case eval_expr e of None \<Rightarrow> Unmodelled | Some v \<Rightarrow> Returns (JNumber v)))"

definition reference_runtime :: runtime where
  "reference_runtime =
     \<lparr> regexp_replace_all = (\<lambda>src s r. to_option (regexp_fragment src s r)),
       call_function = (\<lambda>body. if prefix ''return '' body
                                then to_option (js_expression (drop 7 body)) else None),
       eval_source = (\<lambda>src. to_option (js_expression src)) \<rparr>"

section \<open>The formula evaluator and validator\<close>

text \<open>\<open>s.replace(p, r)\<close> with a string pattern: the first occurrence is replaced.\<close>

fun replace_first :: "string \<Rightarrow> string \<Rightarrow> string \<Rightarrow> string" where
  "replace_first [] p r = (if p = [] then r else [])"
| "replace_first (c # cs) p r =
     (if prefix p (c # cs) then r @ drop (length p) (c # cs) else c # replace_first cs p r)"

text \<open>The loop over \<open>Object.entries(variables)\<close>; \<open>None\<close> when \<open>new RegExp\<close> throws.\<close>

fun substitute :: "runtime \<Rightarrow> string \<Rightarrow> (string \<times> jsnum) list \<Rightarrow> string option" where
  "substitute rt expression [] = Some expression"
| "substitute rt expression ((key, v) # rest) =
     (case regexp_replace_all rt (replace_first key ''_'' ''_?'') expression (toString v) of
        None \<Rightarrow> None
      | Some expression' \<Rightarrow> substitute rt expression' rest)"

text \<open>
  The security check: with the white space removed, the expression is a non-empty
  sequence of digits and the characters \<open>+ - * / ( ) .\<close>
\<close>

definition allowed_char :: "char \<Rightarrow> bool" where
  "allowed_char c = (is_digit c \<or> is_space c \<or> c \<in> set ''+-*/().'')"

definition passes_check :: "string \<Rightarrow> bool" where
  "passes_check expression =
     (let stripped = filter (\<lambda>c. \<not> is_space c) expression
      in stripped \<noteq> [] \<and> list_all allowed_char stripped)"

text \<open>
  What \<open>evaluateFormula\<close> does besides returning a number: the bodies it hands to the
  \<open>Function\<close> constructor, and its calls of \<open>console.error\<close>.
\<close>

datatype effect = FunctionBody string | ConsoleError

definition evaluateFormula_run :: "runtime \<Rightarrow> string \<Rightarrow> jsobject \<Rightarrow> jsnum \<times> effect list" where
  "evaluateFormula_run rt formula variables =
     (case substitute rt formula (object_entries variables) of
        None \<Rightarrow> (Fin 0, [ConsoleError])
      | Some expression \<Rightarrow>
          if \<not> passes_check expression then (Fin 0, [ConsoleError])
          else case call_function rt (''return '' @ expression) of
                 None \<Rightarrow> (Fin 0, [FunctionBody (''return '' @ expression), ConsoleError])
               | Some result \<Rightarrow>
                   (case result of
                      JNumber v \<Rightarrow> if isFinite v then v else Fin 0
                    | JOther \<Rightarrow> Fin 0,
                    [FunctionBody (''return '' @ expression)]))"

definition evaluateFormula :: "runtime \<Rightarrow> string \<Rightarrow> jsobject \<Rightarrow> jsnum" where
  "evaluateFormula rt formula variables = fst (evaluateFormula_run rt formula variables)"

text \<open>
  The sample bindings of \<open>validateFormula\<close>: starting from the empty object,
  \<open>testVars[v] = 100\<close> for every required variable in turn.
\<close>

definition testVars :: "string list \<Rightarrow> jsobject" where
  "testVars requiredVars = foldl (\<lambda>ob v. obj_set ob v (Fin 100)) [] requiredVars"

text \<open>
  \<open>validateFormula\<close> with what it does besides returning: it leaves the loop over
  \<open>requiredVars\<close> at the first name that the formula does not include, before anything is
  bound or evaluated; otherwise its effects are those of its one call of
  \<open>evaluateFormula\<close>, on the sample bindings.
\<close>

definition validateFormula_run :: "runtime \<Rightarrow> string \<Rightarrow> string list \<Rightarrow> bool \<times> effect list" where
  "validateFormula_run rt formula requiredVars =
     (if list_ex (\<lambda>varName. \<not> includes_str formula varName) requiredVars then (False, [])
      else case evaluateFormula_run rt formula (testVars requiredVars) of
             (result, effects) \<Rightarrow> (\<not> isNaN result \<and> isFinite result, effects))"

definition validateFormula :: "runtime \<Rightarrow> string \<Rightarrow> string list \<Rightarrow> bool" where
  "validateFormula rt formula requiredVars = fst (validateFormula_run rt formula requiredVars)"

section \<open>The rate configuration and the admin commit\<close>

record settings =
  logo :: string
  minBilling :: jsnum
  sellRatePercent :: jsnum
  buyRateMultiplier :: jsnum
  pgaMultiplier :: jsnum
  standardBuyFormula :: string
  standardSellFormula :: string
  pgaBuyFormula :: string
  pgaSellFormula :: string

definition DEFAULT_SETTINGS :: settings where
  "DEFAULT_SETTINGS =
     \<lparr> logo = ''logo.png'',
       minBilling = fl 65,
       sellRatePercent = fl (40 / 100),
       buyRateMultiplier = fl (99 / 100),
       pgaMultiplier = fl 3,
       standardBuyFormula = ''((invoice_value + duties) * 0.99) / 1000'',
       standardSellFormula = ''((invoice_value + duties) * 0.40) / 100'',
       pgaBuyFormula =
         ''(((invoice_value_with_pga * 3) + invoice_value_without_pga) * 0.99) / 1000'',
       pgaSellFormula =
         ''(((invoice_value_with_pga * 3) + invoice_value_without_pga) * 0.40) / 100'' \<rparr>"

text \<open>
  The state \<open>saveSettings\<close> reads and writes: the active configuration, the draft of the
  admin form, the record persisted under \<open>teu_admin_settings\<close>, whether the admin panel
  is open, the loading indicator, and the alerts shown so far.
\<close>

record admin_state =
  adminSettings :: settings
  tempSettings :: settings
  persisted :: "settings option"
  showAdminPanel :: bool
  isLoading :: bool
  alerts :: "string list"

definition validations :: "settings \<Rightarrow> (string \<times> string list \<times> string) list" where
  "validations s =
     [(standardBuyFormula s, [''invoice_value'', ''duties''], ''Standard Buy Formula''),
      (standardSellFormula s, [''invoice_value'', ''duties''], ''Standard Sell Formula''),
      (pgaBuyFormula s, [''invoice_value_with_pga'', ''invoice_value_without_pga''],
       ''PGA Buy Formula''),
      (pgaSellFormula s, [''invoice_value_with_pga'', ''invoice_value_without_pga''],
       ''PGA Sell Formula'')]"

definition invalid_alert :: "string \<Rightarrow> string" where
  "invalid_alert name = ''Invalid '' @ name
     @ ''. Please check the formula syntax and ensure all required variables are included.''"

definition saveSettings :: "runtime \<Rightarrow> admin_state \<Rightarrow> admin_state" where
  "saveSettings rt st =
     (case find (\<lambda>(formula, vars, name). \<not> validateFormula rt formula vars)
             (validations (tempSettings st)) of
        Some (formula, vars, name) \<Rightarrow> st\<lparr>alerts := alerts st @ [invalid_alert name]\<rparr>
      | None \<Rightarrow>
          st\<lparr>adminSettings := tempSettings st, persisted := Some (tempSettings st),
             showAdminPanel := False, isLoading := True\<rparr>)"

section \<open>The rate calculation pipeline\<close>

text \<open>\<open>withoutPgaAmount\<close>: the base amount of a standard entry, as a string.\<close>

definition withoutPgaAmount :: "string \<Rightarrow> string \<Rightarrow> string" where
  "withoutPgaAmount invoiceWithoutPga dutiesWithoutPga =
     (let inv = or_zero (parseFloat invoiceWithoutPga);
          dut = or_zero (parseFloat dutiesWithoutPga)
      in toString (jadd inv dut))"

record standard_results =
  buy :: string
  sell :: string
  isBelowMin :: bool
  sellWarning :: "string option"

definition min_billing_note :: "jsnum \<Rightarrow> string" where
  "min_billing_note m = ''Note: A minimum billing of $'' @ toFixed m 2 @ '' usually applies.''"

definition withoutPgaResults :: "settings \<Rightarrow> string \<Rightarrow> standard_results" where
  "withoutPgaResults cfg amountText =
     (let amount = or_zero (parseFloat amountText);
          sellVal = jdiv (jmul amount (sellRatePercent cfg)) (Fin 100);
          belowMin = (jless (Fin 0) amount \<and> jless sellVal (minBilling cfg))
      in \<lparr> buy = toFixed (jdiv (jmul amount (buyRateMultiplier cfg)) (Fin 1000)) 6,
           sell = toFixed sellVal 6,
           isBelowMin = belowMin,
           sellWarning = (if belowMin then Some (min_billing_note (minBilling cfg))
                          else None) \<rparr>)"

text \<open>\<open>testResults\<close>: the preview of a draft configuration in the admin panel.\<close>

record test_results =
  test_buy :: string
  test_sell :: string

definition testResults :: "settings \<Rightarrow> test_results" where
  "testResults draft =
     (let testValue = Fin 10000;
          buyText = toFixed (jdiv (jmul testValue (buyRateMultiplier draft)) (Fin 1000)) 6;
          sellVal = jdiv (jmul testValue (sellRatePercent draft)) (Fin 100);
          sellText = toFixed (Math_max (minBilling draft) sellVal) 6
      in \<lparr> test_buy = buyText, test_sell = sellText \<rparr>)"

text \<open>
  A string in fixed-point notation with exactly \<open>f\<close> decimal digits: an optional sign,
  digits, a point, \<open>f\<close> digits.
\<close>

definition fixed_decimals :: "nat \<Rightarrow> string \<Rightarrow> bool" where
  "fixed_decimals f s =
     (let u = (if s \<noteq> [] \<and> hd s = CHR ''-'' then tl s else s);
          ip = takeWhile is_digit u; r = dropWhile is_digit u
      in ip \<noteq> [] \<and> r \<noteq> [] \<and> hd r = CHR ''.'' \<and> length (tl r) = f \<and> list_all is_digit (tl r))"

section \<open>The interactive calculator\<close>

record calc_state =
  calcDisplay :: string
  calcExpression :: string
  calcMemory :: "jsnum option"
  calcHistory :: "string list"

definition initial_calc :: calc_state where
  "initial_calc = \<lparr> calcDisplay = ''0'', calcExpression = '''', calcMemory = None, calcHistory = [] \<rparr>"

text \<open>The glyphs of the multiplication and division keys, U+00D7 and U+00F7.\<close>

definition times_glyph :: char where
  "times_glyph = CHR 0xD7"

definition divide_glyph :: char where
  "divide_glyph = CHR 0xF7"

text \<open>
  \<open>calcExpression.split(/[+\-\<times>\<div>*/]/).pop() || ''\<close>: what follows the last of these six
  characters.
\<close>

definition splits_token :: "char \<Rightarrow> bool" where
  "splits_token c = (c \<in> set [CHR ''+'', CHR ''-'', times_glyph, divide_glyph, CHR ''*'', CHR ''/''])"

definition last_token :: "string \<Rightarrow> string" where
  "last_token expression = rev (takeWhile (\<lambda>c. \<not> splits_token c) (rev expression))"

text \<open>The characters the \<open>=\<close> key lets through: \<open>/[^0-9+\-*/.]/\<close> finds none.\<close>

definition calc_char :: "char \<Rightarrow> bool" where
  "calc_char c = (is_digit c \<or> c \<in> set ''+-*/.'')"

definition clean_expr :: "string \<Rightarrow> string" where
  "clean_expr expression =
     map (\<lambda>c. if c = times_glyph then CHR ''*'' else if c = divide_glyph then CHR ''/'' else c)
       expression"

definition calc_error :: "calc_state \<Rightarrow> calc_state" where
  "calc_error st = st\<lparr>calcDisplay := ''Error'', calcExpression := ''''\<rparr>"

definition calc_result :: "jsnum \<Rightarrow> calc_state \<Rightarrow> calc_state" where
  "calc_result result st =
     (let roundedResult = (if isInteger result then result else parseFloat (toFixed result 8))
      in st\<lparr>calcDisplay := toString roundedResult, calcExpression := toString roundedResult\<rparr>)"

definition handleCalcBtn :: "runtime \<Rightarrow> string \<Rightarrow> calc_state \<Rightarrow> calc_state" where
  "handleCalcBtn rt val st =
     (if val = ''C'' then st\<lparr>calcDisplay := ''0'', calcExpression := ''''\<rparr>
      else if val = ''Backspace'' then
        st\<lparr>calcDisplay := (if 1 < length (calcDisplay st) then butlast (calcDisplay st) else ''0''),
           calcExpression := butlast (calcExpression st)\<rparr>
      else if val = ''MC'' then st\<lparr>calcMemory := None\<rparr>
      else if val = ''MR'' then
        (case calcMemory st of
           None \<Rightarrow> st
         | Some m \<Rightarrow> st\<lparr>calcDisplay := toString m, calcExpression := toString m\<rparr>)
      else if val = ''MS'' then
        (let v = parseFloat (calcDisplay st)
         in if \<not> isNaN v then st\<lparr>calcMemory := Some v\<rparr> else st)
      else if val = ''M+'' then
        (let v = parseFloat (calcDisplay st)
         in if \<not> isNaN v
            then st\<lparr>calcMemory := Some (case calcMemory st of Some prev \<Rightarrow> jadd prev v | None \<Rightarrow> v)\<rparr>
            else st)
      else if val = ''.'' then
        (let lastToken = last_token (calcExpression st)
         in if \<not> includes_str lastToken ''.''
            then st\<lparr>calcDisplay := (if calcDisplay st = ''0'' \<or> calcDisplay st = ''Error''
                                     then ''0.'' else calcDisplay st @ ''.''),
                    calcExpression := (if calcExpression st = '''' then ''0.''
                                       else calcExpression st @ ''.'')\<rparr>
            else st)
      else if val = ''='' then
        (let cleanExpr = clean_expr (calcExpression st)
         in if list_ex (\<lambda>c. \<not> calc_char c) cleanExpr then calc_error st
            else case eval_source rt cleanExpr of
                   None \<Rightarrow> calc_error st
                 | Some JOther \<Rightarrow> calc_error st
                 | Some (JNumber result) \<Rightarrow> calc_result result st)
      else
        (let isOperator = (val \<in> set [''+'', ''-'', [times_glyph], [divide_glyph]])
         in if calcDisplay st = ''0'' \<and> \<not> isOperator
            then st\<lparr>calcDisplay := val, calcExpression := val\<rparr>
            else st\<lparr>calcDisplay := (if calcDisplay st = ''Error'' then val else calcDisplay st @ val),
                    calcExpression := calcExpression st @ val\<rparr>))"

text \<open>A session: the keys pressed, first to last.\<close>

definition press_keys :: "runtime \<Rightarrow> string list \<Rightarrow> calc_state \<Rightarrow> calc_state" where
  "press_keys rt keys st = foldl (\<lambda>s key. handleCalcBtn rt key s) st keys"

section \<open>The specification's wording, for comparison\<close>

text \<open>
  The character set of the evaluator's check as the specification gives it: digits, white
  space and \<open>+ - * / ( )\<close>.
\<close>

definition spec_allowed_char :: "char \<Rightarrow> bool" where
  "spec_allowed_char c = (is_digit c \<or> is_space c \<or> c \<in> set ''+-*/()'')"

text \<open>
  The current token of the calculator as the specification gives it: the characters since
  the last operator or parenthesis.
\<close>

definition spec_current_token :: "string \<Rightarrow> string" where
  "spec_current_token expression =
     rev (takeWhile (\<lambda>c. \<not> splits_token c \<and> c \<noteq> CHR ''('' \<and> c \<noteq> CHR '')'') (rev expression))"

section \<open>Example inputs\<close>

text \<open>A draft whose PGA sell formula names no variable, over the default configuration.\<close>

definition rejected_commit :: admin_state where
  "rejected_commit =
     \<lparr> adminSettings = DEFAULT_SETTINGS,
       tempSettings = DEFAULT_SETTINGS\<lparr>minBilling := Fin 10, pgaSellFormula := ''1 + 1''\<rparr>,
       persisted = None, showAdminPanel = True, isLoading = False, alerts = [] \<rparr>"

text \<open>A calculator that shows and holds \<open>0\<close>, as after the key \<open>0\<close>.\<close>

definition zero_entered :: calc_state where
  "zero_entered = \<lparr> calcDisplay = ''0'', calcExpression = ''0'', calcMemory = None, calcHistory = [] \<rparr>"

text \<open>The bindings of a standard and of a PGA variable, the shorter name first.\<close>

definition mixed_variables :: jsobject where
  "mixed_variables = [(''invoice_value'', Fin 5), (''invoice_value_with_pga'', Fin 7)]"

section \<open>Properties of the validator\<close>

lemma evaluateFormula_run_finite: "isFinite (fst (evaluateFormula_run rt formula variables))"
  by (simp add: evaluateFormula_run_def isFinite_def split: option.splits jsval.splits)

lemma evaluateFormula_finite: "isFinite (evaluateFormula rt formula variables)"
  by (simp add: evaluateFormula_def evaluateFormula_run_finite)

lemma finite_not_NaN: "isFinite v \<Longrightarrow> \<not> isNaN v"
  by (cases v) (simp_all add: isFinite_def isNaN_def)

lemma evaluateFormula_run_effects: "snd (evaluateFormula_run rt formula variables) \<noteq> []"
  by (simp add: evaluateFormula_run_def split: option.splits)

lemma validateFormula_run_missing:
  "\<not> list_all (includes_str formula) requiredVars \<Longrightarrow>
   validateFormula_run rt formula requiredVars = (False, [])"
  by (simp add: validateFormula_run_def list_ex_iff list_all_iff)

lemma validateFormula_run_present:
  "list_all (includes_str formula) requiredVars \<Longrightarrow>
   validateFormula_run rt formula requiredVars =
     (\<not> isNaN (fst (evaluateFormula_run rt formula (testVars requiredVars)))
        \<and> isFinite (fst (evaluateFormula_run rt formula (testVars requiredVars))),
      snd (evaluateFormula_run rt formula (testVars requiredVars)))"
  by (simp add: validateFormula_run_def list_ex_iff list_all_iff split: prod.splits)

lemma validateFormula_included:
  "validateFormula rt formula requiredVars = list_all (includes_str formula) requiredVars"
proof (cases "list_all (includes_str formula) requiredVars")
  case True
  then show ?thesis
    by (simp add: validateFormula_def validateFormula_run_present evaluateFormula_run_finite
        finite_not_NaN)
next
  case False
  then show ?thesis
    by (simp add: validateFormula_def validateFormula_run_missing)
qed

lemma map_of_obj_set:
  "map_of (obj_set ob k v) k' =
     (if k' = k \<and> k \<noteq> ''__proto__'' then Some v else map_of ob k')"
proof -
  have upd: "map_of (map (\<lambda>(a, b). if a = k then (a, v) else (a, b)) xs) k' =
      (if k' = k \<and> map_of xs k \<noteq> None then Some v else map_of xs k')" for xs
    by (induction xs) auto
  show ?thesis
  proof (cases "k = ''__proto__''")
    case True
    then show ?thesis by (simp add: obj_set_def)
  next
    case False
    show ?thesis
    proof (cases "map_of ob k")
      case None
      then show ?thesis
        using False by (auto simp: obj_set_def map_add_def split: option.splits)
    next
      case (Some w)
      then show ?thesis
        using False by (simp add: obj_set_def upd)
    qed
  qed
qed

lemma testVars_snoc: "testVars (vs @ [x]) = obj_set (testVars vs) x (Fin 100)"
  by (simp add: testVars_def)

lemma map_of_constant:
  "map_of (map (\<lambda>k. (k, c)) ks) k = (if k \<in> set ks then Some c else None)"
  by (induction ks) auto

lemma obj_set_constant:
  assumes "k \<noteq> ''__proto__''"
  shows "obj_set (map (\<lambda>k. (k, c)) ks) k c =
     (if k \<in> set ks then map (\<lambda>k. (k, c)) ks else map (\<lambda>k. (k, c)) (ks @ [k]))"
proof -
  have "map (\<lambda>(k', v'). if k' = k then (k', c) else (k', v')) (map (\<lambda>k. (k, c)) ks)
      = map (\<lambda>k. (k, c)) ks"
    by (induction ks) auto
  with assms show ?thesis
    by (simp add: obj_set_def map_of_constant)
qed

lemma testVars_keys:
  "testVars requiredVars =
     map (\<lambda>k. (k, Fin 100))
       (rev (remdups (rev (filter (\<lambda>k. k \<noteq> ''__proto__'') requiredVars))))"
proof (induction requiredVars rule: rev_induct)
  case Nil
  show ?case by (simp add: testVars_def)
next
  case (snoc x xs)
  show ?case
  proof (cases "x = ''__proto__''")
    case True
    then show ?thesis
      using snoc.IH by (simp add: testVars_snoc obj_set_def)
  next
    case False
    then show ?thesis
      unfolding testVars_snoc snoc.IH by (simp add: obj_set_constant)
  qed
qed

lemma testVars_bound:
  "k \<in> set requiredVars \<Longrightarrow> k \<noteq> ''__proto__'' \<Longrightarrow>
   map_of (testVars requiredVars) k = Some (Fin 100)"
  by (simp add: testVars_keys map_of_constant)

lemma testVars_proto: "map_of (testVars requiredVars) ''__proto__'' = None"
  by (simp add: testVars_keys map_of_constant)

text \<open>
  C9. \<open>validateFormula\<close> returns true exactly when every required variable name is a
  substring of the formula text: the evaluator returns a finite number, never NaN, on
  every input, so the test on its result cannot fail.
\<close>

theorem validate_iff_all_variables_present:
  "validateFormula rt formula requiredVars = (\<forall>v \<in> set requiredVars. sublist v formula)
   \<and> isFinite (evaluateFormula rt formula variables)
   \<and> \<not> isNaN (evaluateFormula rt formula variables)"
  by (simp add: validateFormula_included list_all_iff includes_str_def
      evaluateFormula_finite finite_not_NaN)

theorem validate_iff_all_variables_present_witness:
  "validateFormula reference_runtime ''invoice_value + duties'' [''invoice_value'', ''duties'']
   \<and> \<not> validateFormula reference_runtime ''invoice_value * 2'' [''invoice_value'', ''duties'']"
proof -
  have a: "\<forall>v \<in> set [''invoice_value'', ''duties'']. sublist v ''invoice_value + duties''"
    by code_simp
  have b: "\<not> (\<forall>v \<in> set [''invoice_value'', ''duties'']. sublist v ''invoice_value * 2'')"
    by code_simp
  show ?thesis
    using a b
      validate_iff_all_variables_present [of reference_runtime "''invoice_value + duties''"
        "[''invoice_value'', ''duties'']"]
      validate_iff_all_variables_present [of reference_runtime "''invoice_value * 2''"
        "[''invoice_value'', ''duties'']"]
    by blast
qed

text \<open>
  C4 (amended). \<open>validateFormula\<close> returns false, with nothing bound and no call of the
  evaluator, when a required variable name is not a substring of the formula text.
  Otherwise it calls the evaluator once, on the formula and the bindings \<open>testVars\<close>: its
  effects are those of that call, which are never none, and it returns true exactly
  when the result of the call is finite and not NaN. The bindings are the required
  variables other than \<open>__proto__\<close>, each once and in the order of their first occurrence
  in the list, all at 100: such a variable is bound to 100, and \<open>__proto__\<close> is never bound.
\<close>

theorem validate_probes_all_but_proto_with_100:
  "(\<not> list_all (includes_str formula) requiredVars \<longrightarrow>
      validateFormula_run rt formula requiredVars = (False, []))
   \<and> (list_all (includes_str formula) requiredVars \<longrightarrow>
        validateFormula_run rt formula requiredVars =
          (\<not> isNaN (fst (evaluateFormula_run rt formula (testVars requiredVars)))
             \<and> isFinite (fst (evaluateFormula_run rt formula (testVars requiredVars))),
           snd (evaluateFormula_run rt formula (testVars requiredVars)))
        \<and> snd (validateFormula_run rt formula requiredVars) \<noteq> [])
   \<and> validateFormula rt formula requiredVars = fst (validateFormula_run rt formula requiredVars)
   \<and> testVars requiredVars =
       map (\<lambda>k. (k, Fin 100))
         (rev (remdups (rev (filter (\<lambda>k. k \<noteq> ''__proto__'') requiredVars))))
   \<and> (\<forall>k \<in> set requiredVars.
        k \<noteq> ''__proto__'' \<longrightarrow> map_of (testVars requiredVars) k = Some (Fin 100))
   \<and> map_of (testVars requiredVars) ''__proto__'' = None"
proof (intro conjI impI ballI)
  show "validateFormula rt formula requiredVars = fst (validateFormula_run rt formula requiredVars)"
    by (simp add: validateFormula_def)
  show "testVars requiredVars =
       map (\<lambda>k. (k, Fin 100))
         (rev (remdups (rev (filter (\<lambda>k. k \<noteq> ''__proto__'') requiredVars))))"
    by (rule testVars_keys)
  show "map_of (testVars requiredVars) ''__proto__'' = None"
    by (rule testVars_proto)
next
  assume "\<not> list_all (includes_str formula) requiredVars"
  then show "validateFormula_run rt formula requiredVars = (False, [])"
    by (rule validateFormula_run_missing)
next
  assume a: "list_all (includes_str formula) requiredVars"
  then show "validateFormula_run rt formula requiredVars =
          (\<not> isNaN (fst (evaluateFormula_run rt formula (testVars requiredVars)))
             \<and> isFinite (fst (evaluateFormula_run rt formula (testVars requiredVars))),
           snd (evaluateFormula_run rt formula (testVars requiredVars)))"
    by (rule validateFormula_run_present)
  from a show "snd (validateFormula_run rt formula requiredVars) \<noteq> []"
    by (simp add: validateFormula_run_present evaluateFormula_run_effects)
next
  fix k
  assume "k \<in> set requiredVars" "k \<noteq> ''__proto__''"
  then show "map_of (testVars requiredVars) k = Some (Fin 100)"
    by (rule testVars_bound)
qed

theorem validate_probes_all_but_proto_with_100_witness:
  "validateFormula_run reference_runtime ''invoice_value + duties'' [''invoice_value'', ''duties'']
     = (True, [FunctionBody ''return 100 + 100''])
   \<and> validateFormula_run reference_runtime ''invoice_value * 2'' [''invoice_value'', ''duties'']
     = (False, [])
   \<and> testVars [''invoice_value'', ''duties'']
     = [(''invoice_value'', Fin 100), (''duties'', Fin 100)]
   \<and> map_of (testVars [''invoice_value'', ''duties'']) ''duties'' = Some (Fin 100)"
proof -
  note T = validate_probes_all_but_proto_with_100
    [of "''invoice_value + duties''" "[''invoice_value'', ''duties'']" reference_runtime]
  note U = validate_probes_all_but_proto_with_100
    [of "''invoice_value * 2''" "[''invoice_value'', ''duties'']" reference_runtime]
  have present: "list_all (includes_str ''invoice_value + duties'') [''invoice_value'', ''duties'']"
    by code_simp
  have missing: "\<not> list_all (includes_str ''invoice_value * 2'') [''invoice_value'', ''duties'']"
    by code_simp
  have call: "evaluateFormula_run reference_runtime ''invoice_value + duties''
      (testVars [''invoice_value'', ''duties'']) = (Fin 200, [FunctionBody ''return 100 + 100''])"
    by code_simp
  from T present have
    "validateFormula_run reference_runtime ''invoice_value + duties'' [''invoice_value'', ''duties'']
      = (\<not> isNaN (fst (evaluateFormula_run reference_runtime ''invoice_value + duties''
              (testVars [''invoice_value'', ''duties''])))
          \<and> isFinite (fst (evaluateFormula_run reference_runtime ''invoice_value + duties''
              (testVars [''invoice_value'', ''duties'']))),
         snd (evaluateFormula_run reference_runtime ''invoice_value + duties''
              (testVars [''invoice_value'', ''duties''])))"
    by (elim conjE) simp
  then have a: "validateFormula_run reference_runtime ''invoice_value + duties''
      [''invoice_value'', ''duties''] = (True, [FunctionBody ''return 100 + 100''])"
    unfolding call by (simp add: isNaN_def isFinite_def)
  from U missing have b: "validateFormula_run reference_runtime ''invoice_value * 2''
      [''invoice_value'', ''duties''] = (False, [])"
    by (elim conjE) simp
  from T have "testVars [''invoice_value'', ''duties''] =
       map (\<lambda>k. (k, Fin 100))
         (rev (remdups (rev (filter (\<lambda>k. k \<noteq> ''__proto__'') [''invoice_value'', ''duties'']))))"
    by (elim conjE)
  then have c: "testVars [''invoice_value'', ''duties'']
      = [(''invoice_value'', Fin 100), (''duties'', Fin 100)]"
    by simp
  from T have "\<forall>k \<in> set [''invoice_value'', ''duties''].
      k \<noteq> ''__proto__'' \<longrightarrow> map_of (testVars [''invoice_value'', ''duties'']) k = Some (Fin 100)"
    by (elim conjE)
  then have d: "map_of (testVars [''invoice_value'', ''duties'']) ''duties'' = Some (Fin 100)"
    by simp
  show ?thesis
    using a b c d by (intro conjI)
qed

theorem proto_variable_is_not_bound_counterexample:
  "list_all (includes_str ''__proto__ + 1'') [''__proto__'']
   \<and> testVars [''__proto__''] = []
   \<and> map_of (testVars [''__proto__'']) ''__proto__'' \<noteq> Some (Fin 100)
   \<and> evaluateFormula_run reference_runtime ''__proto__ + 1'' (testVars [''__proto__''])
       = (Fin 0, [ConsoleError])
   \<and> evaluateFormula_run reference_runtime ''__proto__ + 1'' [(''__proto__'', Fin 100)]
       = (Fin 101, [FunctionBody ''return 100 + 1''])
   \<and> validateFormula_run reference_runtime ''__proto__ + 1'' [''__proto__'']
       = (True, [ConsoleError])"
  by code_simp

section \<open>Properties of the admin commit\<close>

text \<open>
  C3. \<open>saveSettings\<close> validates the four formulas of the draft, each against the variables
  of its slot. When one of them fails, the commit is rejected as a whole: the active
  configuration, the persisted record, the draft and the panel are as before, and an
  alert names a formula. When all four pass, the draft becomes the active and the
  persisted configuration.
\<close>

theorem commit_is_all_or_nothing:
  "map (\<lambda>(formula, vars, name). (formula, vars)) (validations (tempSettings st)) =
     [(standardBuyFormula (tempSettings st), [''invoice_value'', ''duties'']),
      (standardSellFormula (tempSettings st), [''invoice_value'', ''duties'']),
      (pgaBuyFormula (tempSettings st), [''invoice_value_with_pga'', ''invoice_value_without_pga'']),
      (pgaSellFormula (tempSettings st), [''invoice_value_with_pga'', ''invoice_value_without_pga''])]
   \<and> (\<not> list_all (\<lambda>(formula, vars, name). validateFormula rt formula vars)
            (validations (tempSettings st)) \<longrightarrow>
        adminSettings (saveSettings rt st) = adminSettings st
        \<and> persisted (saveSettings rt st) = persisted st
        \<and> tempSettings (saveSettings rt st) = tempSettings st
        \<and> showAdminPanel (saveSettings rt st) = showAdminPanel st
        \<and> (\<exists>name \<in> set (map (\<lambda>(formula, vars, name). name) (validations (tempSettings st))).
              alerts (saveSettings rt st) = alerts st @ [invalid_alert name]))
   \<and> (list_all (\<lambda>(formula, vars, name). validateFormula rt formula vars)
          (validations (tempSettings st)) \<longrightarrow>
        adminSettings (saveSettings rt st) = tempSettings st
        \<and> persisted (saveSettings rt st) = Some (tempSettings st)
        \<and> alerts (saveSettings rt st) = alerts st)"
  by (simp add: saveSettings_def validations_def)

theorem commit_is_all_or_nothing_witness:
  "adminSettings (saveSettings reference_runtime rejected_commit) = DEFAULT_SETTINGS
   \<and> persisted (saveSettings reference_runtime rejected_commit) = None"
proof -
  have "\<not> list_all (includes_str ''1 + 1'') [''invoice_value_with_pga'', ''invoice_value_without_pga'']"
    by code_simp
  then have "\<not> list_all (\<lambda>(formula, vars, name). validateFormula reference_runtime formula vars)
      (validations (tempSettings rejected_commit))"
    by (simp add: validations_def rejected_commit_def validateFormula_included)
  then show ?thesis
    using commit_is_all_or_nothing [of rejected_commit reference_runtime]
    by (simp add: rejected_commit_def)
qed
section \<open>Digits and fixed-point notation\<close>

lemma digit_char_is_digit: "0 \<le> d \<Longrightarrow> d < 10 \<Longrightarrow> is_digit (digit_char d)"
  unfolding is_digit_def digit_char_def by (rule nth_mem) simp

lemma show_int_digits: "0 \<le> n \<Longrightarrow> show_int n \<noteq> [] \<and> list_all is_digit (show_int n)"
proof (induction n rule: show_int.induct)
  case (1 n)
  show ?case
  proof (cases "n < 10")
    case True
    with "1.prems" show ?thesis
      by (subst (1 2) show_int.simps) (simp add: digit_char_is_digit)
  next
    case False
    with "1.prems" have "0 \<le> n div 10" "0 \<le> n mod 10" "n mod 10 < 10"
      by simp_all
    with "1.IH" False show ?thesis
      by (subst (1 2) show_int.simps) (simp add: digit_char_is_digit)
  qed
qed

lemma not_digit_point [simp]: "\<not> is_digit CHR ''.''" "\<not> is_digit CHR ''-''"
  by (simp_all add: is_digit_def)

lemma takeWhile_digits_point:
  "list_all is_digit a \<Longrightarrow> takeWhile is_digit (a @ CHR ''.'' # b) = a"
  by (induction a) simp_all

lemma dropWhile_digits_point:
  "list_all is_digit a \<Longrightarrow> dropWhile is_digit (a @ CHR ''.'' # b) = CHR ''.'' # b"
  by (induction a) simp_all

lemma fixed_decimals_intro:
  assumes "a \<noteq> []" "list_all is_digit a" "list_all is_digit b" "length b = f"
  shows "fixed_decimals f (a @ CHR ''.'' # b)" and "fixed_decimals f (CHR ''-'' # a @ CHR ''.'' # b)"
proof -
  from assms(1,2) have "hd a \<noteq> CHR ''-''"
    by (cases a) auto
  with assms show "fixed_decimals f (a @ CHR ''.'' # b)"
    by (simp add: fixed_decimals_def Let_def takeWhile_digits_point dropWhile_digits_point)
  from assms show "fixed_decimals f (CHR ''-'' # a @ CHR ''.'' # b)"
    by (simp add: fixed_decimals_def Let_def takeWhile_digits_point dropWhile_digits_point)
qed

lemma toFixed_fixed_decimals:
  assumes "\<bar>x\<bar> < pow10 21" "0 < f"
  shows "fixed_decimals f (toFixed (Fin x) f)"
proof -
  define n where "n = \<lfloor>\<bar>x\<bar> * 10 ^ f + 1 / 2\<rfloor>"
  define m where "m = show_int n"
  define z where "z = (if length m \<le> f then replicate (f + 1 - length m) CHR ''0'' @ m else m)"
  have "0 \<le> n"
    unfolding n_def by simp
  then have m: "m \<noteq> []" "list_all is_digit m"
    unfolding m_def using show_int_digits by blast+
  have zd: "list_all is_digit z"
    using m by (simp add: z_def is_digit_def list_all_iff)
  have zl: "f < length z"
    using m by (auto simp: z_def)
  have a: "take (length z - f) z \<noteq> []" "list_all is_digit (take (length z - f) z)"
    using zl zd by (auto simp: list_all_iff dest: in_set_takeD)
  have b: "list_all is_digit (drop (length z - f) z)" "length (drop (length z - f) z) = f"
    using zl zd by (auto simp: list_all_iff dest: in_set_dropD)
  have "toFixed (Fin x) f =
      (if x < 0 then ''-'' else '''') @ take (length z - f) z @ CHR ''.'' # drop (length z - f) z"
    using assms by (simp add: toFixed_def Let_def n_def m_def z_def)
  then show ?thesis
    using fixed_decimals_intro [OF a b] by simp
qed

section \<open>The last token of the calculator's expression\<close>

lemma sublist_singleton: "sublist [c] s = (c \<in> set s)"
  by (induction s) (auto simp: sublist_Cons_right)

lemma last_token_decomposition:
  "\<exists>before. expression = before @ last_token expression
     \<and> (before = [] \<or> splits_token (last before))"
proof -
  let ?P = "\<lambda>c. \<not> splits_token c"
  have "expression = rev (dropWhile ?P (rev expression)) @ last_token expression"
    unfolding last_token_def by (metis rev_append rev_rev_ident takeWhile_dropWhile_id)
  moreover have "dropWhile ?P (rev expression) \<noteq> [] \<Longrightarrow>
      splits_token (last (rev (dropWhile ?P (rev expression))))"
    using hd_dropWhile [of ?P "rev expression"] by (simp add: last_rev)
  ultimately show ?thesis
    by (metis rev_is_Nil_conv)
qed

lemma last_token_no_operator: "c \<in> set (last_token expression) \<Longrightarrow> \<not> splits_token c"
  unfolding last_token_def by (auto dest: set_takeWhileD)

section \<open>Characters of the expression at the \<open>=\<close> key\<close>

lemma clean_expr_keeps:
  "c \<in> set expression \<Longrightarrow> c \<noteq> times_glyph \<Longrightarrow> c \<noteq> divide_glyph \<Longrightarrow> c \<in> set (clean_expr expression)"
  by (force simp: clean_expr_def)

lemma sublist_set: "sublist xs ys \<Longrightarrow> set xs \<subseteq> set ys"
  by (auto simp: sublist_def)

section \<open>The security check of the evaluator\<close>

lemma passes_check_iff:
  "passes_check expression =
     ((\<forall>c \<in> set expression. allowed_char c) \<and> (\<exists>c \<in> set expression. \<not> is_space c))"
  by (auto simp: passes_check_def Let_def list_all_iff filter_empty_conv allowed_char_def)

section \<open>Properties of the evaluator\<close>

text \<open>
  C2 (amended). After the substitution, an expression with a character that is not a
  digit, white space or one of \<open>+ - * / ( ) .\<close> makes the evaluator return 0 and log the
  failure, without calling the \<open>Function\<close> constructor; so does a RegExp that cannot be
  built. Every body the evaluator hands to the \<open>Function\<close> constructor is \<open>return\<close> followed by
  the substituted expression, which then consists of those characters only.
\<close>

theorem evaluator_check_guards_evaluation:
  "(case substitute rt formula (object_entries variables) of
      None \<Rightarrow> evaluateFormula_run rt formula variables = (Fin 0, [ConsoleError])
    | Some expression \<Rightarrow>
        ((\<exists>c \<in> set expression. \<not> allowed_char c) \<longrightarrow>
           evaluateFormula_run rt formula variables = (Fin 0, [ConsoleError]))
        \<and> (\<forall>body. FunctionBody body \<in> set (snd (evaluateFormula_run rt formula variables)) \<longrightarrow>
             body = ''return '' @ expression \<and> (\<forall>c \<in> set expression. allowed_char c)))
   \<and> evaluateFormula rt formula variables = fst (evaluateFormula_run rt formula variables)
   \<and> allowed_char c = (is_digit c \<or> is_space c \<or> c \<in> set ''+-*/().'')"
  by (auto simp: evaluateFormula_run_def evaluateFormula_def passes_check_iff allowed_char_def
      split: option.splits jsval.splits)

theorem evaluator_check_guards_evaluation_witness:
  "substitute reference_runtime ''invoice_value + x'' (object_entries [(''invoice_value'', Fin 100)])
     = Some ''100 + x''
   \<and> evaluateFormula_run reference_runtime ''invoice_value + x'' [(''invoice_value'', Fin 100)]
     = (Fin 0, [ConsoleError])"
proof -
  have s: "substitute reference_runtime ''invoice_value + x''
      (object_entries [(''invoice_value'', Fin 100)]) = Some ''100 + x''"
    by code_simp
  have bad: "\<exists>c \<in> set ''100 + x''. \<not> allowed_char c"
    by code_simp
  from evaluator_check_guards_evaluation
    [of reference_runtime "''invoice_value + x''" "[(''invoice_value'', Fin 100)]"]
  have "(\<exists>c \<in> set ''100 + x''. \<not> allowed_char c) \<longrightarrow>
      evaluateFormula_run reference_runtime ''invoice_value + x'' [(''invoice_value'', Fin 100)]
        = (Fin 0, [ConsoleError])"
    unfolding s by simp
  with s bad show ?thesis
    by (intro conjI) simp_all
qed

theorem point_passes_the_check_counterexample:
  "\<not> list_all spec_allowed_char ''1.5''
   \<and> substitute reference_runtime ''1.5'' (object_entries []) = Some ''1.5''
   \<and> evaluateFormula_run reference_runtime ''1.5'' [] = (Fin (3 / 2), [FunctionBody ''return 1.5''])
   \<and> js_expression ''1.5'' = Returns (JNumber (Fin (3 / 2)))"
  by code_simp

text \<open>
  C7. The substitution step at the bindings of \<open>invoice_value\<close> and
  \<open>invoice_value_with_pga\<close>: the shorter name is replaced first, inside the longer one, and
  the longer name is never replaced by its value.
\<close>

theorem substitution_corrupts_longer_name:
  "object_entries mixed_variables = [(''invoice_value'', Fin 5), (''invoice_value_with_pga'', Fin 7)]
   \<and> regexp_fragment ''invoice_?value'' ''invoice_value_with_pga'' ''5'' = Returns ''5_with_pga''
   \<and> regexp_fragment ''invoice_?value_with_pga'' ''5_with_pga'' ''7'' = Returns ''5_with_pga''
   \<and> substitute reference_runtime ''invoice_value_with_pga'' (object_entries mixed_variables)
       = Some ''5_with_pga''
   \<and> evaluateFormula reference_runtime ''invoice_value_with_pga'' mixed_variables = Fin 0"
  by code_simp

section \<open>Properties of the calculator\<close>

text \<open>
  C8 (amended). The key \<open>.\<close> looks at the characters of the expression that follow the
  last of \<open>+ - * /\<close> and the two glyphs; a parenthesis does not start a new token. When they
  hold a point the state does not change; otherwise a point is added to the display and
  to the expression (\<open>0.\<close> on an empty expression, or on a display of \<open>0\<close> or \<open>Error\<close>).
\<close>

theorem decimal_point_once_per_token:
  "handleCalcBtn rt ''.'' st =
     (if CHR ''.'' \<in> set (last_token (calcExpression st)) then st
      else st\<lparr>calcDisplay := (if calcDisplay st = ''0'' \<or> calcDisplay st = ''Error''
                               then ''0.'' else calcDisplay st @ ''.''),
              calcExpression := (if calcExpression st = '''' then ''0.''
                                 else calcExpression st @ ''.'')\<rparr>)
   \<and> (\<exists>before. calcExpression st = before @ last_token (calcExpression st)
         \<and> (before = [] \<or> splits_token (last before)))
   \<and> (\<forall>c \<in> set (last_token (calcExpression st)). \<not> splits_token c)"
  using last_token_decomposition [of "calcExpression st"]
  by (auto simp: handleCalcBtn_def Let_def includes_str_def sublist_singleton
      dest: last_token_no_operator)

theorem decimal_point_once_per_token_witness:
  "handleCalcBtn reference_runtime ''.'' (initial_calc\<lparr>calcDisplay := ''1.5+2'', calcExpression := ''1.5+2''\<rparr>)
     = initial_calc\<lparr>calcDisplay := ''1.5+2.'', calcExpression := ''1.5+2.''\<rparr>
   \<and> last_token ''1.5+2'' = ''2''"
proof -
  have t: "last_token ''1.5+2'' = ''2''"
    by code_simp
  from decimal_point_once_per_token
    [of reference_runtime "initial_calc\<lparr>calcDisplay := ''1.5+2'', calcExpression := ''1.5+2''\<rparr>"]
  have "handleCalcBtn reference_runtime ''.''
      (initial_calc\<lparr>calcDisplay := ''1.5+2'', calcExpression := ''1.5+2''\<rparr>)
    = initial_calc\<lparr>calcDisplay := ''1.5+2.'', calcExpression := ''1.5+2.''\<rparr>"
    by (simp add: t initial_calc_def)
  with t show ?thesis
    by simp
qed

theorem parenthesis_does_not_start_token_counterexample:
  "press_keys reference_runtime [''2'', ''.'', ''5'', ''('', ''3''] initial_calc
     = initial_calc\<lparr>calcDisplay := ''2.5(3'', calcExpression := ''2.5(3''\<rparr>
   \<and> spec_current_token ''2.5(3'' = ''3''
   \<and> handleCalcBtn reference_runtime ''.'' (initial_calc\<lparr>calcDisplay := ''2.5(3'', calcExpression := ''2.5(3''\<rparr>)
     = initial_calc\<lparr>calcDisplay := ''2.5(3'', calcExpression := ''2.5(3''\<rparr>"
  by code_simp

text \<open>
  C10 (amended). The square root key puts the fragment \<open>Math.sqrt(\<close> at the end of the
  expression: after the expression there was, or in its place when the display is exactly
  \<open>0\<close>. As long as the expression holds the fragment, the key \<open>=\<close> leads to the error state:
  the display is \<open>Error\<close> and the expression is empty.
\<close>

theorem square_root_key_leads_to_error:
  "calcExpression (handleCalcBtn rt ''Math.sqrt('' st) =
     (if calcDisplay st = ''0'' then '''' else calcExpression st) @ ''Math.sqrt(''
   \<and> (includes_str (calcExpression st) ''Math.sqrt('' \<longrightarrow>
        handleCalcBtn rt ''='' st = calc_error st)
   \<and> calcDisplay (calc_error st) = ''Error'' \<and> calcExpression (calc_error st) = ''''"
proof -
  have "handleCalcBtn rt ''='' st = calc_error st" if "includes_str (calcExpression st) ''Math.sqrt(''"
  proof -
    from that have "CHR ''M'' \<in> set (calcExpression st)"
      using sublist_set [of "''Math.sqrt(''" "calcExpression st"] by (simp add: includes_str_def)
    then have "CHR ''M'' \<in> set (clean_expr (calcExpression st))"
      by (rule clean_expr_keeps) (simp_all add: times_glyph_def divide_glyph_def)
    moreover have "\<not> calc_char CHR ''M''"
      by (simp add: calc_char_def is_digit_def)
    ultimately have "list_ex (\<lambda>c. \<not> calc_char c) (clean_expr (calcExpression st))"
      unfolding list_ex_iff by blast
    then show ?thesis
      by (simp add: handleCalcBtn_def Let_def)
  qed
  then show ?thesis
    by (simp add: handleCalcBtn_def Let_def calc_error_def times_glyph_def divide_glyph_def)
qed

theorem square_root_key_leads_to_error_witness:
  "calcExpression (handleCalcBtn reference_runtime ''Math.sqrt('' (initial_calc\<lparr>calcDisplay := ''2+'', calcExpression := ''2+''\<rparr>))
     = ''2+Math.sqrt(''
   \<and> press_keys reference_runtime [''2'', ''+'', ''Math.sqrt('', ''9'', ''=''] initial_calc = calc_error initial_calc"
proof -
  have a: "includes_str ''2+Math.sqrt(9'' ''Math.sqrt(''"
    by code_simp
  have b: "press_keys reference_runtime [''2'', ''+'', ''Math.sqrt('', ''9''] initial_calc
      = initial_calc\<lparr>calcDisplay := ''2+Math.sqrt(9'', calcExpression := ''2+Math.sqrt(9''\<rparr>"
    by code_simp
  have c: "press_keys reference_runtime (ks @ [k]) s = handleCalcBtn reference_runtime k (press_keys reference_runtime ks s)"
    for ks k s
    by (simp add: press_keys_def)
  from square_root_key_leads_to_error
    [of reference_runtime "initial_calc\<lparr>calcDisplay := ''2+Math.sqrt(9'', calcExpression := ''2+Math.sqrt(9''\<rparr>"] a
  have d: "handleCalcBtn reference_runtime ''=''
      (initial_calc\<lparr>calcDisplay := ''2+Math.sqrt(9'', calcExpression := ''2+Math.sqrt(9''\<rparr>)
    = calc_error initial_calc"
    by (simp add: initial_calc_def calc_error_def)
  from square_root_key_leads_to_error
    [of reference_runtime "initial_calc\<lparr>calcDisplay := ''2+'', calcExpression := ''2+''\<rparr>"]
  have e: "calcExpression (handleCalcBtn reference_runtime ''Math.sqrt(''
      (initial_calc\<lparr>calcDisplay := ''2+'', calcExpression := ''2+''\<rparr>)) = ''2+Math.sqrt(''"
    by (simp add: initial_calc_def)
  have "press_keys reference_runtime ([''2'', ''+'', ''Math.sqrt('', ''9''] @ [''='']) initial_calc
      = calc_error initial_calc"
    unfolding c b d ..
  with e show ?thesis
    by simp
qed

theorem square_root_key_replaces_zero_counterexample:
  "zero_entered = handleCalcBtn reference_runtime ''0'' initial_calc
   \<and> calcExpression zero_entered @ ''Math.sqrt('' = ''0Math.sqrt(''
   \<and> calcExpression (handleCalcBtn reference_runtime ''Math.sqrt('' zero_entered) = ''Math.sqrt(''"
  by code_simp

text \<open>
  C5 (amended). The key \<open>=\<close> replaces the two glyphs by \<open>*\<close> and \<open>/\<close>. When the result holds
  a character that is not a digit or one of \<open>+ - * / .\<close>, the state becomes the error state.
  Otherwise the expression is evaluated: when the evaluation throws or its value is not a
  number, the state becomes the error state as well; when its value is a number, the
  number (as it is when an integer, else rounded to 8 decimal places) becomes the display
  and the expression. The keys \<open>7 + 3 =\<close> give the display \<open>10\<close>, and \<open>+ 2 =\<close> after them \<open>12\<close>.
\<close>

theorem equals_key_evaluates_or_fails:
  "handleCalcBtn rt ''='' st =
     (if \<exists>c \<in> set (clean_expr (calcExpression st)). \<not> calc_char c then calc_error st
      else case eval_source rt (clean_expr (calcExpression st)) of
             Some (JNumber result) \<Rightarrow> calc_result result st
           | _ \<Rightarrow> calc_error st)
   \<and> clean_expr (calcExpression st) =
       map (\<lambda>c. if c = times_glyph then CHR ''*'' else if c = divide_glyph then CHR ''/'' else c)
         (calcExpression st)
   \<and> calc_char c = (is_digit c \<or> c \<in> set ''+-*/.'')
   \<and> calc_error st = st\<lparr>calcDisplay := ''Error'', calcExpression := ''''\<rparr>
   \<and> calc_result result st =
       st\<lparr>calcDisplay := toString (if isInteger result then result else parseFloat (toFixed result 8)),
          calcExpression := toString (if isInteger result then result else parseFloat (toFixed result 8))\<rparr>
   \<and> calcDisplay (press_keys reference_runtime [''7'', ''+'', ''3'', ''=''] initial_calc) = ''10''
   \<and> calcDisplay (press_keys reference_runtime [''+'', ''2'', ''='']
        (press_keys reference_runtime [''7'', ''+'', ''3'', ''=''] initial_calc)) = ''12''"
proof -
  have a: "calcDisplay (press_keys reference_runtime [''7'', ''+'', ''3'', ''=''] initial_calc) = ''10''"
    by code_simp
  have b: "calcDisplay (press_keys reference_runtime [''+'', ''2'', ''='']
        (press_keys reference_runtime [''7'', ''+'', ''3'', ''=''] initial_calc)) = ''12''"
    by code_simp
  have c: "handleCalcBtn rt ''='' st =
     (if \<exists>c \<in> set (clean_expr (calcExpression st)). \<not> calc_char c then calc_error st
      else case eval_source rt (clean_expr (calcExpression st)) of
             Some (JNumber result) \<Rightarrow> calc_result result st
           | _ \<Rightarrow> calc_error st)"
    by (simp add: handleCalcBtn_def Let_def list_ex_iff split: option.splits jsval.splits)
  show ?thesis
    using a b c by (simp add: clean_expr_def calc_char_def calc_error_def calc_result_def Let_def)
qed

theorem equals_key_evaluates_or_fails_witness:
  "handleCalcBtn reference_runtime ''=''
     (initial_calc\<lparr>calcDisplay := [CHR ''2'', CHR ''+'', CHR ''3'', times_glyph, CHR ''4''],
                   calcExpression := [CHR ''2'', CHR ''+'', CHR ''3'', times_glyph, CHR ''4'']\<rparr>)
     = initial_calc\<lparr>calcDisplay := ''14'', calcExpression := ''14''\<rparr>
   \<and> calcDisplay (press_keys reference_runtime [''1'', [divide_glyph], ''3'', ''=''] initial_calc)
     = ''0.33333333''"
proof -
  let ?st = "initial_calc\<lparr>calcDisplay := [CHR ''2'', CHR ''+'', CHR ''3'', times_glyph, CHR ''4''],
                   calcExpression := [CHR ''2'', CHR ''+'', CHR ''3'', times_glyph, CHR ''4'']\<rparr>"
  let ?st3 = "initial_calc\<lparr>calcDisplay := [CHR ''1'', divide_glyph, CHR ''3''],
                   calcExpression := [CHR ''1'', divide_glyph, CHR ''3'']\<rparr>"
  have a: "(if \<exists>c \<in> set (clean_expr (calcExpression ?st)). \<not> calc_char c then calc_error ?st
      else case eval_source reference_runtime (clean_expr (calcExpression ?st)) of
             Some (JNumber result) \<Rightarrow> calc_result result ?st
           | _ \<Rightarrow> calc_error ?st) = initial_calc\<lparr>calcDisplay := ''14'', calcExpression := ''14''\<rparr>"
    by code_simp
  have b: "press_keys reference_runtime [''1'', [divide_glyph], ''3''] initial_calc = ?st3"
    by code_simp
  have c: "calcDisplay (if \<exists>c \<in> set (clean_expr (calcExpression ?st3)). \<not> calc_char c then calc_error ?st3
      else case eval_source reference_runtime (clean_expr (calcExpression ?st3)) of
             Some (JNumber result) \<Rightarrow> calc_result result ?st3
           | _ \<Rightarrow> calc_error ?st3) = ''0.33333333''"
    by code_simp
  have d: "press_keys reference_runtime (ks @ [k]) s = handleCalcBtn reference_runtime k (press_keys reference_runtime ks s)"
    for ks k s
    by (simp add: press_keys_def)
  have e: "handleCalcBtn reference_runtime ''='' ?st = initial_calc\<lparr>calcDisplay := ''14'', calcExpression := ''14''\<rparr>"
    using equals_key_evaluates_or_fails [of reference_runtime ?st] a by simp
  have f: "calcDisplay (handleCalcBtn reference_runtime ''='' ?st3) = ''0.33333333''"
    using equals_key_evaluates_or_fails [of reference_runtime ?st3] c by simp
  have "calcDisplay (press_keys reference_runtime ([''1'', [divide_glyph], ''3''] @ [''='']) initial_calc)
      = ''0.33333333''"
    unfolding d b by (rule f)
  with e show ?thesis
    by simp
qed

theorem equals_key_fails_on_legal_characters_counterexample:
  "\<not> list_ex (\<lambda>c. \<not> calc_char c) (clean_expr (calcExpression initial_calc))
   \<and> js_expression (clean_expr (calcExpression initial_calc)) = Returns JOther
   \<and> handleCalcBtn reference_runtime ''='' initial_calc
       = initial_calc\<lparr>calcDisplay := ''Error'', calcExpression := ''''\<rparr>
   \<and> press_keys reference_runtime [''7'', ''+''] initial_calc
       = initial_calc\<lparr>calcDisplay := ''7+'', calcExpression := ''7+''\<rparr>
   \<and> \<not> list_ex (\<lambda>c. \<not> calc_char c) (clean_expr ''7+'')
   \<and> js_expression (clean_expr ''7+'') = Throws
   \<and> press_keys reference_runtime [''7'', ''+'', ''=''] initial_calc
       = initial_calc\<lparr>calcDisplay := ''Error'', calcExpression := ''''\<rparr>"
  by code_simp

section \<open>Properties of the rate calculation\<close>

text \<open>
  C6 (amended). The preview of a draft configuration takes the amount 10000. Its sell
  output is \<open>toFixed(6)\<close> of the larger of the minimum billing and
  \<open>(10000 * sellRatePercent) / 100\<close>: the minimum billing itself when the sell value is
  below it, where the live calculation on the amount 10000 shows the sell value and only
  raises the warning. Its buy output is \<open>toFixed(6)\<close> of \<open>(10000 * buyRateMultiplier) / 1000\<close>,
  without a floor. \<open>toFixed(6)\<close> gives six decimal digits for a finite number of magnitude
  less than \<open>10^21\<close>.
\<close>

theorem preview_enforces_minimum_billing:
  "test_sell (testResults draft) =
     toFixed (Math_max (minBilling draft)
       (jdiv (jmul (Fin 10000) (sellRatePercent draft)) (Fin 100))) 6
   \<and> test_buy (testResults draft) =
     toFixed (jdiv (jmul (Fin 10000) (buyRateMultiplier draft)) (Fin 1000)) 6
   \<and> (jless (jdiv (jmul (Fin 10000) (sellRatePercent draft)) (Fin 100)) (minBilling draft) \<longrightarrow>
        test_sell (testResults draft) = toFixed (minBilling draft) 6
        \<and> sell (withoutPgaResults draft ''10000'') =
            toFixed (jdiv (jmul (Fin 10000) (sellRatePercent draft)) (Fin 100)) 6
        \<and> isBelowMin (withoutPgaResults draft ''10000''))
   \<and> (\<forall>x. Math_max (minBilling draft) (jdiv (jmul (Fin 10000) (sellRatePercent draft)) (Fin 100))
          = Fin x \<and> \<bar>x\<bar> < pow10 21 \<longrightarrow> fixed_decimals 6 (test_sell (testResults draft)))
   \<and> (\<forall>x. jdiv (jmul (Fin 10000) (buyRateMultiplier draft)) (Fin 1000) = Fin x \<and> \<bar>x\<bar> < pow10 21
          \<longrightarrow> fixed_decimals 6 (test_buy (testResults draft)))"
proof -
  have p: "or_zero (parseFloat ''10000'') = Fin 10000"
    by code_simp
  have m: "jless a b \<Longrightarrow> Math_max b a = b" for a b
    by (cases a; cases b) (simp_all add: Math_max_def)
  show ?thesis
    by (auto simp: testResults_def withoutPgaResults_def Let_def p m toFixed_fixed_decimals)
qed

theorem preview_enforces_minimum_billing_witness:
  "testResults DEFAULT_SETTINGS = \<lparr> test_buy = ''9.900000'', test_sell = ''65.000000'' \<rparr>
   \<and> sell (withoutPgaResults DEFAULT_SETTINGS ''10000'') = ''40.000000''
   \<and> isBelowMin (withoutPgaResults DEFAULT_SETTINGS ''10000'')
   \<and> fixed_decimals 6 (test_sell (testResults DEFAULT_SETTINGS))"
proof -
  have a: "jless (jdiv (jmul (Fin 10000) (sellRatePercent DEFAULT_SETTINGS)) (Fin 100))
      (minBilling DEFAULT_SETTINGS)"
    by code_simp
  have b: "toFixed (minBilling DEFAULT_SETTINGS) 6 = ''65.000000''"
    by code_simp
  have c: "toFixed (jdiv (jmul (Fin 10000) (sellRatePercent DEFAULT_SETTINGS)) (Fin 100)) 6 = ''40.000000''"
    by code_simp
  have d: "toFixed (jdiv (jmul (Fin 10000) (buyRateMultiplier DEFAULT_SETTINGS)) (Fin 1000)) 6 = ''9.900000''"
    by code_simp
  have e: "Math_max (minBilling DEFAULT_SETTINGS)
      (jdiv (jmul (Fin 10000) (sellRatePercent DEFAULT_SETTINGS)) (Fin 100)) = Fin 65 \<and> \<bar>65 :: rat\<bar> < pow10 21"
    by code_simp
  note T = preview_enforces_minimum_billing [of DEFAULT_SETTINGS]
  from T a b have s: "test_sell (testResults DEFAULT_SETTINGS) = ''65.000000''"
    by (elim conjE) simp
  from T d have f: "test_buy (testResults DEFAULT_SETTINGS) = ''9.900000''"
    by (elim conjE) simp
  from T a c have g: "sell (withoutPgaResults DEFAULT_SETTINGS ''10000'') = ''40.000000''"
    by (elim conjE) simp
  from T a have h: "isBelowMin (withoutPgaResults DEFAULT_SETTINGS ''10000'')"
    by (elim conjE) simp
  from T e have i: "fixed_decimals 6 (test_sell (testResults DEFAULT_SETTINGS))"
    by (elim conjE) blast
  have "testResults DEFAULT_SETTINGS = \<lparr> test_buy = ''9.900000'', test_sell = ''65.000000'' \<rparr>"
    using s f by (cases "testResults DEFAULT_SETTINGS") simp
  with g h i show ?thesis
    by (intro conjI)
qed

theorem preview_of_a_large_minimum_counterexample:
  "test_sell (testResults (DEFAULT_SETTINGS\<lparr>minBilling := parseFloat ''1e21''\<rparr>)) = ''1e+21''
   \<and> \<not> fixed_decimals 6 (test_sell (testResults (DEFAULT_SETTINGS\<lparr>minBilling := parseFloat ''1e21''\<rparr>)))"
  by code_simp

section \<open>Powers of two and ten\<close>

lemma pow2_powi: "pow2 e = 2 powi e"
  by (simp add: pow2_def power_int_def power_one_over inverse_eq_divide)

lemma pow10_powi: "pow10 e = 10 powi e"
  by (simp add: pow10_def power_int_def power_one_over inverse_eq_divide)

lemma pow2_pos [simp]: "0 < pow2 e"
  by (simp add: pow2_powi)

lemma pow10_pos [simp]: "0 < pow10 e"
  by (simp add: pow10_powi)

lemma pow2_add: "pow2 (a + b) = pow2 a * pow2 b"
  by (simp add: pow2_powi power_int_add)

lemma pow10_add: "pow10 (a + b) = pow10 a * pow10 b"
  by (simp add: pow10_powi power_int_add)

lemma pow2_mono: "a \<le> b \<Longrightarrow> pow2 a \<le> pow2 b"
  by (simp add: pow2_powi power_int_increasing)

lemma pow2_strict_mono: "a < b \<Longrightarrow> pow2 a < pow2 b"
  by (simp add: pow2_powi power_int_strict_increasing)

lemma pow10_mono: "a \<le> b \<Longrightarrow> pow10 a \<le> pow10 b"
  by (simp add: pow10_powi power_int_increasing)

lemma pow10_strict_mono: "a < b \<Longrightarrow> pow10 a < pow10 b"
  by (simp add: pow10_powi power_int_strict_increasing)

lemma pow2_nat: "0 \<le> e \<Longrightarrow> pow2 e = 2 ^ nat e"
  by (simp add: pow2_def)

lemma pow10_nat: "0 \<le> e \<Longrightarrow> pow10 e = 10 ^ nat e"
  by (simp add: pow10_def)

lemma pow2_neg: "pow2 (- e) = 1 / pow2 e"
  by (simp add: pow2_powi power_int_minus inverse_eq_divide)

lemma pow10_neg: "pow10 (- e) = 1 / pow10 e"
  by (simp add: pow10_powi power_int_minus inverse_eq_divide)

lemma pow2_less_cancel: "pow2 a < pow2 b \<Longrightarrow> a < b"
  by (metis pow2_mono leD leI)

lemma pow10_less_cancel: "pow10 a < pow10 b \<Longrightarrow> a < b"
  by (metis pow10_mono leD leI)

lemma rat_power_le_of_int: "(b :: int) ^ k \<le> m \<Longrightarrow> (of_int b :: rat) ^ k \<le> of_int m"
  by (metis of_int_le_iff of_int_power)

lemma rat_of_int_less_power: "m < (b :: int) ^ k \<Longrightarrow> (of_int m :: rat) < of_int b ^ k"
  by (metis of_int_less_iff of_int_power)

section \<open>The binary exponent\<close>

lemma ilog2_bounds:
  assumes "0 < r"
  shows "pow2 (ilog2 r) \<le> r" and "r < pow2 (ilog2 r + 1)"
proof -
  have "pow2 (ilog2 r) \<le> r \<and> r < pow2 (ilog2 r + 1)"
  proof (cases "1 \<le> r")
    case True
    define n where "n = \<lfloor>r\<rfloor>"
    have n: "1 \<le> n" "of_int n \<le> r" "r < of_int n + 1"
      using True floor_correct [of r] by (simp_all add: n_def le_floor_iff)
    from n(1) have b: "2 ^ nat (bitlen n - 1) \<le> n" "n < 2 ^ nat (bitlen n)" "1 \<le> bitlen n"
      using bitlen_bounds [of n] bitlen_ge_iff_power [of 1 n] by simp_all
    have e: "ilog2 r = bitlen n - 1"
      using True by (simp add: ilog2_def n_def)
    have "pow2 (bitlen n - 1) = of_int (2 ^ nat (bitlen n - 1))"
      using b(3) by (simp add: pow2_nat)
    also have "\<dots> \<le> of_int n"
      using b(1) by (simp only: of_int_le_iff)
    finally have lo: "pow2 (bitlen n - 1) \<le> r"
      using n(2) by simp
    from b(2) have "n + 1 \<le> 2 ^ nat (bitlen n)"
      by simp
    then have "(of_int (n + 1) :: rat) \<le> of_int (2 ^ nat (bitlen n))"
      by (simp only: of_int_le_iff)
    then have "r < 2 ^ nat (bitlen n)"
      using n(3) by simp
    also have "\<dots> = pow2 (bitlen n - 1 + 1)"
      using b(3) by (simp add: pow2_nat)
    finally show ?thesis
      using lo e by simp
  next
    case False
    define w where "w = 1 / r"
    define m where "m = \<lceil>w\<rceil> - 1"
    have w: "1 < w" "r = 1 / w" "0 < w"
      using False assms by (simp_all add: w_def)
    have m: "of_int m < w" "w \<le> of_int m + 1" "1 \<le> m"
      using w(1) by (simp_all add: m_def less_ceiling_iff) linarith+
    from m(3) have b: "2 ^ nat (bitlen m - 1) \<le> m" "m < 2 ^ nat (bitlen m)" "1 \<le> bitlen m"
      using bitlen_bounds [of m] bitlen_ge_iff_power [of 1 m] by simp_all
    have e: "ilog2 r = - bitlen m"
      using False by (simp add: ilog2_def m_def w_def)
    from b(2) have "m + 1 \<le> 2 ^ nat (bitlen m)"
      by simp
    then have "(of_int (m + 1) :: rat) \<le> of_int (2 ^ nat (bitlen m))"
      by (simp only: of_int_le_iff)
    then have "w \<le> 2 ^ nat (bitlen m)"
      using m(2) by simp
    then have "w \<le> pow2 (bitlen m)"
      using b(3) by (simp add: pow2_nat)
    then have "1 / pow2 (bitlen m) \<le> 1 / w"
      using w(3) by (simp add: frac_le)
    then have lo: "pow2 (- bitlen m) \<le> r"
      using w(2) by (simp add: pow2_neg)
    have "(2 :: rat) ^ nat (bitlen m - 1) \<le> of_int m"
      using rat_power_le_of_int [OF b(1)] by simp
    moreover have "pow2 (bitlen m - 1) = 2 ^ nat (bitlen m - 1)"
      using b(3) by (simp add: pow2_nat)
    ultimately have "pow2 (bitlen m - 1) < w"
      using m(1) by linarith
    then have "1 / w < 1 / pow2 (bitlen m - 1)"
      by (simp add: frac_less2)
    then have "r < pow2 (- (bitlen m - 1))"
      using w(2) by (simp only: pow2_neg)
    then show ?thesis
      using lo e by simp
  qed
  then show "pow2 (ilog2 r) \<le> r" and "r < pow2 (ilog2 r + 1)"
    by simp_all
qed

lemma ilog2_unique:
  assumes "pow2 e \<le> r" "r < pow2 (e + 1)"
  shows "ilog2 r = e"
proof -
  have r: "0 < r"
    using assms(1) pow2_pos [of e] by linarith
  from ilog2_bounds [OF r] assms have "pow2 (ilog2 r) < pow2 (e + 1)" "pow2 e < pow2 (ilog2 r + 1)"
    by linarith+
  then have "ilog2 r < e + 1" "e < ilog2 r + 1"
    by (auto dest: pow2_less_cancel)
  then show ?thesis
    by simp
qed

section \<open>Rounding to an integer\<close>

lemma round_half_even_of_int [simp]: "round_half_even (of_int m) = m"
  by (simp add: round_half_even_def)

lemma round_half_even_lower: "of_int a \<le> x \<Longrightarrow> a \<le> round_half_even x"
proof -
  assume "of_int a \<le> x"
  then have "a \<le> \<lfloor>x\<rfloor>"
    by (simp add: le_floor_iff)
  moreover have "\<lfloor>x\<rfloor> \<le> round_half_even x"
    by (simp add: round_half_even_def Let_def)
  ultimately show ?thesis
    by simp
qed

lemma round_half_even_upper: "x \<le> of_int b \<Longrightarrow> round_half_even x \<le> b"
proof -
  assume x: "x \<le> of_int b"
  then have f: "\<lfloor>x\<rfloor> \<le> b"
    by (simp add: floor_le_iff)
  show ?thesis
  proof (cases "\<lfloor>x\<rfloor> = b")
    case True
    then have "x = of_int b"
      using x by (metis of_int_floor_le order_antisym)
    then show ?thesis
      by simp
  next
    case False
    with f have "\<lfloor>x\<rfloor> + 1 \<le> b"
      by simp
    then show ?thesis
      by (auto simp: round_half_even_def Let_def)
  qed
qed
section \<open>Rounding to binary64\<close>

lemma ilog2_scale:
  assumes "0 < r"
  shows "ilog2 (r * pow2 q) = ilog2 r + q"
proof (rule ilog2_unique)
  show "pow2 (ilog2 r + q) \<le> r * pow2 q"
    using ilog2_bounds(1) [OF assms] by (simp add: pow2_add)
  have "r * pow2 q < pow2 (ilog2 r + 1) * pow2 q"
    using ilog2_bounds(2) [OF assms] by simp
  then show "r * pow2 q < pow2 (ilog2 r + q + 1)"
    by (simp add: pow2_add mult.commute mult.left_commute)
qed

lemma pow2_nonzero [simp]: "pow2 e \<noteq> 0"
  by (metis pow2_pos less_irrefl)

lemma pow2_abs [simp]: "\<bar>pow2 e\<bar> = pow2 e"
  by (rule abs_of_pos) (rule pow2_pos)

lemma pow2_numerals: "pow2 1 = 2" "pow2 52 = 4503599627370496" "pow2 53 = 9007199254740992"
  by (simp_all add: pow2_def)

lemma fl_minus: "fl (- r) = jneg (fl r)"
  by (cases r "0 :: rat" rule: linorder_cases) (auto simp: fl_def Let_def)

lemma fl_Fin_cases:
  assumes "fl r = Fin y"
  shows "y = 0 \<or> (\<exists>m q. \<bar>y\<bar> = of_int m * pow2 q \<and> binary64_grid m q)"
proof (cases "r = 0")
  case True
  with assms show ?thesis
    by (simp add: fl_def)
next
  case False
  define a where "a = \<bar>r\<bar>"
  define e where "e = ilog2 a"
  define q where "q = max (e - 52) (- 1074)"
  define m where "m = round_half_even (a / pow2 q)"
  have a: "0 < a"
    using False by (simp add: a_def)
  have eb: "pow2 e \<le> a" "a < pow2 (e + 1)"
    using ilog2_bounds [OF a] by (simp_all add: e_def)
  have q: "- 1074 \<le> q" "e - 52 \<le> q"
    by (simp_all add: q_def)
  have "(of_int 0 :: rat) \<le> a / pow2 q"
    using a pow2_pos [of q] by (simp add: zero_le_divide_iff less_imp_le)
  then have m0: "0 \<le> m"
    unfolding m_def by (rule round_half_even_lower)
  have "pow2 (e + 1) = pow2 (e + 1 - q) * pow2 q"
    using pow2_add [of "e + 1 - q" q] by simp
  then have "a / pow2 q < pow2 (e + 1 - q)"
    using eb(2) by (simp add: pos_divide_less_eq)
  also have "\<dots> \<le> pow2 53"
    using q(2) by (intro pow2_mono) simp
  finally have "a / pow2 q \<le> of_int (2 ^ 53)"
    by (simp add: pow2_def)
  then have m53: "m \<le> 2 ^ 53"
    unfolding m_def by (rule round_half_even_upper)
  from assms False have nov: "\<not> (1024 \<le> e \<or> (e = 1023 \<and> m = 2 ^ 53))"
    and y: "y = (if r < 0 then - (of_int m * pow2 q) else of_int m * pow2 q)"
    by (auto simp: fl_def Let_def a_def e_def q_def m_def split: if_splits)
  have ay: "\<bar>y\<bar> = of_int m * pow2 q"
    using m0 by (simp add: y abs_mult)
  show ?thesis
  proof (cases "m = 0")
    case True
    then show ?thesis
      by (simp add: y)
  next
    case m: False
    have q971: "q \<le> 971"
      using nov by (simp add: q_def)
    have top: "m < 2 ^ 53 \<or> q < 971"
      using nov m53 by (auto simp: q_def max_def split: if_splits)
    have low: "2 ^ 52 \<le> m \<or> q = - 1074"
    proof (cases "q = - 1074")
      case False
      then have qe: "q = e - 52"
        by (simp add: q_def max_def split: if_splits)
      have "pow2 e = pow2 52 * pow2 q"
        using pow2_add [of 52 q] by (simp add: qe)
      then have "pow2 52 \<le> a / pow2 q"
        using eb(1) by (simp add: pos_le_divide_eq)
      then have "of_int (2 ^ 52) \<le> a / pow2 q"
        by (simp add: pow2_def)
      then have "2 ^ 52 \<le> m"
        unfolding m_def by (rule round_half_even_lower)
      then show ?thesis ..
    qed simp
    have "binary64_grid m q"
      using m m0 m53 q(1) q971 top low by (simp add: binary64_grid_def)
    with ay show ?thesis
      by blast
  qed
qed

lemma fl_grid_point:
  assumes "binary64_grid m q"
  shows "fl (of_int m * pow2 q) = Fin (of_int m * pow2 q)"
proof -
  from assms have g: "1 \<le> m" "m \<le> 2 ^ 53" "- 1074 \<le> q" "q \<le> 971"
    "m < 2 ^ 53 \<or> q < 971" "2 ^ 52 \<le> m \<or> q = - 1074"
    by (simp_all add: binary64_grid_def)
  define b where "b = ilog2 (of_int m)"
  have mpos: "(0 :: rat) < of_int m"
    using g(1) by simp
  have bb: "pow2 b \<le> of_int m" "of_int m < pow2 (b + 1)"
    using ilog2_bounds [OF mpos] by (simp_all add: b_def)
  have m1: "pow2 0 \<le> of_int m"
    using g(1) by (simp add: pow2_def)
  have m53: "(of_int m :: rat) \<le> pow2 53"
  proof -
    have "(of_int m :: rat) \<le> of_int (2 ^ 53)"
      using g(2) by (simp only: of_int_le_iff)
    then show ?thesis
      by (simp add: pow2_def)
  qed
  have b0: "0 \<le> b"
    using m1 bb(2) pow2_less_cancel [of 0 "b + 1"] by simp
  have b53: "b \<le> 53"
    using m53 bb(1) pow2_less_cancel [of b 54] pow2_strict_mono [of 53 54] by simp
  let ?y = "of_int m * pow2 q"
  have ypos: "0 < ?y"
    using mpos by simp
  have e: "ilog2 ?y = b + q"
    using ilog2_scale [OF mpos] by (simp add: b_def)
  have ab: "\<bar>?y\<bar> = ?y"
    using ypos by simp
  show ?thesis
  proof (cases "m = 2 ^ 53")
    case True
    have "ilog2 (of_int m) = 53"
      by (rule ilog2_unique) (simp_all add: True pow2_def)
    then have b: "b = 53"
      by (simp add: b_def)
    from g(5) True have q: "q < 971"
      by simp
    have mx: "max (b + q - 52) (- 1074) = q + 1"
      using g(3) by (simp add: b)
    have "?y / pow2 (q + 1) = of_int (2 ^ 52)"
      by (simp add: True pow2_add pow2_numerals)
    then have r: "round_half_even (?y / pow2 (q + 1)) = 2 ^ 52"
      by (simp only: round_half_even_of_int)
    have v: "of_int (2 ^ 52) * pow2 (q + 1) = ?y"
      by (simp add: True pow2_add pow2_numerals)
    show ?thesis
      using ypos q v unfolding fl_def Let_def ab e mx r
      by (simp add: b)
  next
    case False
    with g(2) have lt: "m < 2 ^ 53"
      by simp
    have "(of_int m :: rat) < of_int (2 ^ 53)"
      using lt by (simp only: of_int_less_iff)
    then have "(of_int m :: rat) < pow2 53"
      by (simp add: pow2_def)
    then have b52: "b \<le> 52"
      using bb(1) pow2_less_cancel [of b 53] by simp
    have mx: "max (b + q - 52) (- 1074) = q"
    proof (cases "q = - 1074")
      case True
      then show ?thesis
        using b52 by simp
    next
      case False
      with g(6) have "2 ^ 52 \<le> m"
        by simp
      then have "(of_int (2 ^ 52) :: rat) \<le> of_int m"
        by (simp only: of_int_le_iff)
      then have "pow2 52 \<le> of_int m"
        by (simp add: pow2_def)
      then have "52 \<le> b"
        using bb(2) pow2_less_cancel [of 52 "b + 1"] by simp
      with b52 have "b = 52"
        by simp
      then show ?thesis
        using g(3) by simp
    qed
    have r: "round_half_even (?y / pow2 q) = m"
      by simp
    show ?thesis
      using ypos lt b52 g(4) unfolding fl_def Let_def ab e mx r
      by simp
  qed
qed

lemma fl_idempotent:
  assumes "fl r = Fin y"
  shows "fl y = Fin y"
proof -
  from fl_Fin_cases [OF assms] consider "y = 0"
    | m q where "\<bar>y\<bar> = of_int m * pow2 q" "binary64_grid m q"
    by blast
  then show ?thesis
  proof cases
    case 1
    then show ?thesis
      by (simp add: fl_def)
  next
    case 2
    then have a: "fl \<bar>y\<bar> = Fin \<bar>y\<bar>"
      using fl_grid_point by simp
    show ?thesis
    proof (cases "y < 0")
      case True
      then have "fl y = jneg (fl \<bar>y\<bar>)"
        using fl_minus [of "\<bar>y\<bar>"] by simp
      with a True show ?thesis
        by simp
    next
      case False
      with a show ?thesis
        by simp
    qed
  qed
qed

lemma fl_on_grid:
  assumes "fl r = Fin y"
  shows "\<exists>N :: int. y * pow2 1074 = of_int N"
proof -
  from fl_Fin_cases [OF assms] consider "y = 0"
    | m q where "\<bar>y\<bar> = of_int m * pow2 q" "binary64_grid m q"
    by blast
  then show ?thesis
  proof cases
    case 1
    then show ?thesis
      by (intro exI [of _ 0]) simp
  next
    case 2
    then have q: "0 \<le> q + 1074"
      by (simp add: binary64_grid_def)
    have "\<bar>y\<bar> * pow2 1074 = of_int m * pow2 (q + 1074)"
      by (simp add: 2(1) pow2_add)
    also have "\<dots> = of_int (m * 2 ^ nat (q + 1074))"
      using q by (simp add: pow2_nat)
    finally have a: "\<bar>y\<bar> * pow2 1074 = of_int (m * 2 ^ nat (q + 1074))" .
    show ?thesis
    proof (cases "y < 0")
      case True
      with a have "y * pow2 1074 = of_int (- (m * 2 ^ nat (q + 1074)))"
        by simp
      then show ?thesis ..
    next
      case False
      with a have "y * pow2 1074 = of_int (m * 2 ^ nat (q + 1074))"
        by simp
      then show ?thesis ..
    qed
  qed
qed

lemma fl_range:
  assumes "fl r = Fin y" "y \<noteq> 0"
  shows "pow2 (- 1074) \<le> \<bar>y\<bar>" and "\<bar>y\<bar> < pow2 1024"
proof -
  from fl_Fin_cases [OF assms(1)] assms(2) obtain m q
    where y: "\<bar>y\<bar> = of_int m * pow2 q" and g: "binary64_grid m q"
    by blast
  from g have g: "1 \<le> m" "m \<le> 2 ^ 53" "- 1074 \<le> q" "q \<le> 971" "m < 2 ^ 53 \<or> q < 971"
    by (simp_all add: binary64_grid_def)
  have "pow2 (- 1074) \<le> pow2 q"
    using g(3) by (rule pow2_mono)
  also have "\<dots> \<le> of_int m * pow2 q"
    using g(1) by simp
  finally show "pow2 (- 1074) \<le> \<bar>y\<bar>"
    by (simp add: y)
  show "\<bar>y\<bar> < pow2 1024"
  proof (cases "m < 2 ^ 53")
    case True
    then have "(of_int m :: rat) < of_int (2 ^ 53)"
      by (simp only: of_int_less_iff)
    then have "(of_int m :: rat) < pow2 53"
      by (simp add: pow2_def)
    then have "of_int m * pow2 q < pow2 53 * pow2 q"
      by simp
    also have "\<dots> = pow2 (53 + q)"
      by (simp add: pow2_add)
    also have "\<dots> \<le> pow2 1024"
      using g(4) by (intro pow2_mono) simp
    finally show ?thesis
      by (simp add: y)
  next
    case False
    with g have m: "m = 2 ^ 53" and q: "q < 971"
      by simp_all
    have "of_int m * pow2 q = pow2 (53 + q)"
      by (simp add: m pow2_add pow2_numerals)
    also have "\<dots> < pow2 1024"
      using q by (intro pow2_strict_mono) simp
    finally show ?thesis
      by (simp add: y)
  qed
qed
section \<open>Decimal digits of integers\<close>

lemma ndigits_bounds:
  "1 \<le> n \<Longrightarrow> 1 \<le> ndigits n \<and> 10 ^ nat (ndigits n - 1) \<le> n \<and> n < 10 ^ nat (ndigits n)"
proof (induction n rule: ndigits.induct)
  case (1 n)
  show ?case
  proof (cases "n < 10")
    case True
    with "1.prems" have "n div 10 = 0"
      by simp
    then have "ndigits n = 1"
      using "1.prems" by (subst ndigits.simps) (simp add: ndigits.simps [of 0])
    with True "1.prems" show ?thesis
      by simp
  next
    case False
    then have d: "1 \<le> n div 10"
      by simp
    with "1.IH" "1.prems" have ih: "1 \<le> ndigits (n div 10)"
      "10 ^ nat (ndigits (n div 10) - 1) \<le> n div 10" "n div 10 < 10 ^ nat (ndigits (n div 10))"
      by simp_all
    have e: "ndigits n = 1 + ndigits (n div 10)"
      using "1.prems" by (subst ndigits.simps) simp
    have p: "nat (ndigits (n div 10)) = Suc (nat (ndigits (n div 10) - 1))"
      using ih(1) by simp
    have "10 * 10 ^ nat (ndigits (n div 10) - 1) \<le> 10 * (n div 10)"
      using ih(2) by simp
    also have "\<dots> \<le> n"
      by simp
    finally have lo: "10 ^ nat (ndigits (n div 10)) \<le> n"
      by (subst p) simp
    have "n < 10 * (n div 10 + 1)"
      by simp
    also have "\<dots> \<le> 10 * 10 ^ nat (ndigits (n div 10))"
      using ih(3) by simp
    finally have hi: "n < 10 ^ Suc (nat (ndigits (n div 10)))"
      by simp
    have s: "nat (1 + ndigits (n div 10)) = Suc (nat (ndigits (n div 10)))"
      using ih(1) by simp
    show ?thesis
      using ih(1) lo hi by (simp add: e s)
  qed
qed

lemma ndigits_unique:
  assumes "10 ^ k \<le> s" "s < 10 ^ Suc k"
  shows "ndigits s = int (Suc k)"
proof -
  have s: "1 \<le> s"
    using assms(1) by (smt (verit) one_le_power)
  from ndigits_bounds [OF s] have b: "1 \<le> ndigits s"
    "(10 :: int) ^ nat (ndigits s - 1) \<le> s" "s < 10 ^ nat (ndigits s)"
    by simp_all
  have "(10 :: int) ^ nat (ndigits s - 1) < 10 ^ Suc k"
    using b(2) assms(2) by (rule le_less_trans)
  then have "nat (ndigits s - 1) < Suc k"
    by (simp only: power_strict_increasing_iff [of "10 :: int"])
  moreover have "(10 :: int) ^ k < 10 ^ nat (ndigits s)"
    using assms(1) b(3) by (rule le_less_trans)
  then have "k < nat (ndigits s)"
    by (simp only: power_strict_increasing_iff [of "10 :: int"])
  ultimately show ?thesis
    using b(1) by simp
qed

lemma digit_val_digit_char: "0 \<le> d \<Longrightarrow> d < 10 \<Longrightarrow> digit_val (digit_char d) = d"
proof -
  assume "0 \<le> d" "d < 10"
  then have "d = 0 \<or> d = 1 \<or> d = 2 \<or> d = 3 \<or> d = 4 \<or> d = 5 \<or> d = 6 \<or> d = 7 \<or> d = 8 \<or> d = 9"
    by arith
  then show ?thesis
    by (auto simp: digit_val_def digit_char_def)
qed

lemma read_int_snoc: "read_int (ds @ [c]) = 10 * read_int ds + digit_val c"
  by (simp add: read_int_def)

lemma read_int_Nil [simp]: "read_int [] = 0"
  by (simp add: read_int_def)

lemma read_int_append: "read_int (a @ b) = read_int a * 10 ^ length b + read_int b"
proof (induction b rule: rev_induct)
  case Nil
  then show ?case by simp
next
  case (snoc c b)
  have "read_int (a @ b @ [c]) = 10 * read_int (a @ b) + digit_val c"
    using read_int_snoc [of "a @ b" c] by simp
  then show ?case
    by (simp add: snoc.IH read_int_snoc algebra_simps)
qed

lemma read_int_zeros [simp]: "read_int (replicate z CHR ''0'') = 0"
  by (induction z) (simp_all add: read_int_def digit_val_def)

lemma read_show_int: "0 \<le> n \<Longrightarrow> read_int (show_int n) = n"
proof (induction n rule: show_int.induct)
  case (1 n)
  show ?case
  proof (cases "n < 10")
    case True
    with "1.prems" show ?thesis
      by (subst show_int.simps) (simp add: read_int_def digit_val_digit_char)
  next
    case False
    with "1.IH" "1.prems" have "read_int (show_int (n div 10)) = n div 10"
      by simp
    with False show ?thesis
      by (subst show_int.simps) (simp add: read_int_snoc digit_val_digit_char)
  qed
qed

lemma length_show_int: "1 \<le> n \<Longrightarrow> int (length (show_int n)) = ndigits n"
proof (induction n rule: show_int.induct)
  case (1 n)
  show ?case
  proof (cases "n < 10")
    case True
    with "1.prems" have "n div 10 = 0"
      by simp
    then have "ndigits n = 1"
      using "1.prems" by (subst ndigits.simps) (simp add: ndigits.simps [of 0])
    with True show ?thesis
      by (subst show_int.simps) simp
  next
    case False
    then have d: "1 \<le> n div 10"
      by simp
    with "1.IH" False have "int (length (show_int (n div 10))) = ndigits (n div 10)"
      by simp
    moreover have "ndigits n = 1 + ndigits (n div 10)"
      using "1.prems" by (subst ndigits.simps) simp
    ultimately show ?thesis
      using False by (subst show_int.simps) simp
  qed
qed

section \<open>The decimal exponent\<close>

lemma rat_power10_le_of_int: "(10 :: int) ^ k \<le> m \<Longrightarrow> (10 :: rat) ^ k \<le> of_int m"
  using rat_power_le_of_int [of 10 k m] by simp

lemma rat_of_int_less_power10: "m < (10 :: int) ^ k \<Longrightarrow> (of_int m :: rat) < 10 ^ k"
  using rat_of_int_less_power [of m 10 k] by simp

lemma dec_exp_bounds:
  assumes "0 < x"
  shows "pow10 (dec_exp x - 1) \<le> x" and "x < pow10 (dec_exp x)"
proof -
  have "pow10 (dec_exp x - 1) \<le> x \<and> x < pow10 (dec_exp x)"
  proof (cases "1 \<le> x")
    case True
    define n where "n = \<lfloor>x\<rfloor>"
    have n: "1 \<le> n" "of_int n \<le> x" "x < of_int n + 1"
      using True floor_correct [of x] by (simp_all add: n_def le_floor_iff)
    from ndigits_bounds [OF n(1)] have b: "1 \<le> ndigits n"
      "10 ^ nat (ndigits n - 1) \<le> n" "n < 10 ^ nat (ndigits n)"
      by simp_all
    have e: "dec_exp x = ndigits n"
      using True by (simp add: dec_exp_def n_def)
    have "pow10 (ndigits n - 1) = 10 ^ nat (ndigits n - 1)"
      using b(1) by (simp add: pow10_nat)
    also have "\<dots> \<le> of_int n"
      using b(2) by (rule rat_power10_le_of_int)
    finally have lo: "pow10 (ndigits n - 1) \<le> x"
      using n(2) by simp
    from b(3) have "n + 1 \<le> 10 ^ nat (ndigits n)"
      by simp
    then have "(of_int (n + 1) :: rat) \<le> of_int (10 ^ nat (ndigits n))"
      by (simp only: of_int_le_iff)
    then have "x < 10 ^ nat (ndigits n)"
      using n(3) by simp
    also have "\<dots> = pow10 (ndigits n)"
      using b(1) by (simp add: pow10_nat)
    finally show ?thesis
      using lo e by simp
  next
    case False
    define w where "w = 1 / x"
    define m where "m = \<lceil>w\<rceil> - 1"
    have w: "1 < w" "x = 1 / w" "0 < w"
      using False assms by (simp_all add: w_def)
    have m: "of_int m < w" "w \<le> of_int m + 1" "1 \<le> m"
      using w(1) by (simp_all add: m_def less_ceiling_iff) linarith+
    from ndigits_bounds [OF m(3)] have b: "1 \<le> ndigits m"
      "10 ^ nat (ndigits m - 1) \<le> m" "m < 10 ^ nat (ndigits m)"
      by simp_all
    have e: "dec_exp x = 1 - ndigits m"
      using False by (simp add: dec_exp_def m_def w_def)
    from b(3) have "m + 1 \<le> 10 ^ nat (ndigits m)"
      by simp
    then have "(of_int (m + 1) :: rat) \<le> of_int (10 ^ nat (ndigits m))"
      by (simp only: of_int_le_iff)
    then have "w \<le> 10 ^ nat (ndigits m)"
      using m(2) by simp
    then have "w \<le> pow10 (ndigits m)"
      using b(1) by (simp add: pow10_nat)
    then have "1 / pow10 (ndigits m) \<le> 1 / w"
      using w(3) by (simp add: frac_le)
    then have lo: "pow10 (- ndigits m) \<le> x"
      using w(2) by (simp add: pow10_neg)
    have "(10 :: rat) ^ nat (ndigits m - 1) \<le> of_int m"
      using b(2) by (rule rat_power10_le_of_int)
    moreover have "pow10 (ndigits m - 1) = 10 ^ nat (ndigits m - 1)"
      using b(1) by (simp add: pow10_nat)
    ultimately have "pow10 (ndigits m - 1) < w"
      using m(1) by linarith
    then have "1 / w < 1 / pow10 (ndigits m - 1)"
      by (simp add: frac_less2)
    then have "x < pow10 (- (ndigits m - 1))"
      using w(2) by (simp only: pow10_neg)
    then show ?thesis
      using lo e by simp
  qed
  then show "pow10 (dec_exp x - 1) \<le> x" and "x < pow10 (dec_exp x)"
    by simp_all
qed
section \<open>The shortest digits\<close>

lemma digits_k_sound:
  assumes "digits_k x n0 k = Some (s, n)" "1 \<le> k" "pow10 (n0 - 1) \<le> x" "x < pow10 n0"
  shows "fl (of_int s * pow10 (n - k)) = Fin x" and "10 ^ nat (k - 1) \<le> s" and "s < 10 ^ nat k"
proof -
  define u where "u = pow10 (n0 - k)"
  define t where "t = x / u"
  define lo where "lo = \<lfloor>t\<rfloor>"
  define hi where "hi = lo + 1"
  have u: "0 < u"
    by (simp add: u_def)
  have "pow10 (n0 - 1) = pow10 (k - 1) * u"
    using pow10_add [of "k - 1" "n0 - k"] by (simp add: u_def)
  then have "pow10 (k - 1) \<le> t"
    using assms(3) u by (simp add: t_def pos_le_divide_eq)
  then have "of_int (10 ^ nat (k - 1)) \<le> t"
    using assms(2) by (simp add: pow10_nat)
  then have lo1: "10 ^ nat (k - 1) \<le> lo"
    unfolding lo_def by (simp only: le_floor_iff)
  have "pow10 n0 = pow10 k * u"
    using pow10_add [of k "n0 - k"] by (simp add: u_def)
  then have "t < pow10 k"
    using assms(4) u by (simp add: t_def pos_divide_less_eq)
  then have "t < of_int (10 ^ nat k)"
    using assms(2) by (simp add: pow10_nat)
  then have lo2: "lo < 10 ^ nat k"
    unfolding lo_def by (simp only: floor_less_iff)
  define ok_lo where "ok_lo = (fl (of_int lo * u) = Fin x)"
  define ok_hi where "ok_hi = (fl (of_int hi * u) = Fin x)"
  define pick_hi where "pick_hi =
    (ok_hi \<and> (\<not> ok_lo \<or> of_int hi - t < t - of_int lo \<or> (of_int hi - t = t - of_int lo \<and> even hi)))"
  have eq: "digits_k x n0 k =
      (if pick_hi then (if hi = 10 ^ nat k then Some (10 ^ nat (k - 1), n0 + 1) else Some (hi, n0))
       else if ok_lo then Some (lo, n0) else None)"
    unfolding digits_k_def Let_def pick_hi_def ok_lo_def ok_hi_def hi_def lo_def t_def u_def
    by (rule refl)
  have ph: "pick_hi \<Longrightarrow> ok_hi"
    by (simp add: pick_hi_def)
  from assms(1) [unfolded eq] ph consider
      (carry) "ok_hi" "hi = 10 ^ nat k" "s = 10 ^ nat (k - 1)" "n = n0 + 1"
    | (hi) "ok_hi" "hi \<noteq> 10 ^ nat k" "s = hi" "n = n0"
    | (lo) "ok_lo" "s = lo" "n = n0"
    by (cases pick_hi; cases "hi = 10 ^ nat k"; cases ok_lo) simp_all
  then have "fl (of_int s * pow10 (n - k)) = Fin x \<and> 10 ^ nat (k - 1) \<le> s \<and> s < 10 ^ nat k"
  proof cases
    case carry
    have "of_int s * pow10 (n - k) = pow10 (k - 1) * pow10 (n0 + 1 - k)"
      using assms(2) by (simp add: carry pow10_nat)
    also have "\<dots> = pow10 n0"
      using pow10_add [of "k - 1" "n0 + 1 - k"] by simp
    also have "\<dots> = pow10 k * u"
      using pow10_add [of k "n0 - k"] by (simp add: u_def)
    also have "\<dots> = of_int hi * u"
      using assms(2) by (simp add: carry pow10_nat)
    finally have "fl (of_int s * pow10 (n - k)) = Fin x"
      using carry(1) by (simp add: ok_hi_def)
    moreover have "(10 :: int) ^ nat (k - 1) < 10 ^ nat k"
      using assms(2) by (intro power_strict_increasing) simp_all
    ultimately show ?thesis
      by (simp add: carry(3))
  next
    case hi
    then have "fl (of_int s * pow10 (n - k)) = Fin x"
      by (simp add: ok_hi_def u_def)
    moreover have "10 ^ nat (k - 1) \<le> s" "s < 10 ^ nat k"
      using hi(2,3) lo1 lo2 by (simp_all add: hi_def)
    ultimately show ?thesis
      by simp
  next
    case lo
    then show ?thesis
      using lo1 lo2 by (simp add: ok_lo_def u_def)
  qed
  then show "fl (of_int s * pow10 (n - k)) = Fin x" and "10 ^ nat (k - 1) \<le> s" and "s < 10 ^ nat k"
    by simp_all
qed

lemma digits_k_exact:
  assumes "fl x = Fin x" "x / pow10 (n0 - k) = of_int T"
  shows "digits_k x n0 k \<noteq> None"
proof -
  have "pow10 (n0 - k) \<noteq> 0"
    using pow10_pos [of "n0 - k"] by (metis less_irrefl)
  then have "of_int \<lfloor>x / pow10 (n0 - k)\<rfloor> * pow10 (n0 - k) = x"
    unfolding assms(2) using assms(2) by (simp add: field_simps)
  then have "fl (of_int \<lfloor>x / pow10 (n0 - k)\<rfloor> * pow10 (n0 - k)) = Fin x"
    using assms(1) by simp
  then show ?thesis
    by (simp add: digits_k_def Let_def)
qed

lemma shortest_sound:
  "shortest x n0 k0 = Some (k, s, n) \<Longrightarrow> k0 \<le> k \<and> k < 1400 \<and> digits_k x n0 k = Some (s, n)"
proof (induction x n0 k0 rule: shortest.induct)
  case (1 x n0 k0)
  from "1.prems" have lt: "\<not> 1400 \<le> k0"
    by (subst (asm) shortest.simps) (simp split: if_splits)
  show ?case
  proof (cases "digits_k x n0 k0")
    case None
    with "1.prems" lt have "shortest x n0 (k0 + 1) = Some (k, s, n)"
      by (subst (asm) shortest.simps) simp
    with "1.IH" lt None show ?thesis
      by fastforce
  next
    case (Some p)
    with "1.prems" lt show ?thesis
      by (subst (asm) shortest.simps) (auto split: prod.splits)
  qed
qed

lemma shortest_complete:
  "k0 \<le> k \<Longrightarrow> k < 1400 \<Longrightarrow> digits_k x n0 k \<noteq> None \<Longrightarrow> shortest x n0 k0 \<noteq> None"
proof (induction x n0 k0 rule: shortest.induct)
  case (1 x n0 k0)
  from "1.prems" have lt: "\<not> 1400 \<le> k0"
    by simp
  show ?case
  proof (cases "digits_k x n0 k0")
    case None
    with "1.prems" have "k0 + 1 \<le> k"
      by (cases "k0 = k") auto
    with "1.IH" lt None "1.prems" have "shortest x n0 (k0 + 1) \<noteq> None"
      by simp
    with lt None show ?thesis
      by (subst shortest.simps) simp
  next
    case (Some p)
    with lt show ?thesis
      by (subst shortest.simps) (simp split: prod.splits)
  qed
qed

lemma grid_decimal:
  assumes "x * pow2 c = of_int N" "0 \<le> c"
  shows "\<exists>T :: int. x / pow10 (- c) = of_int T"
proof -
  have "pow10 c = pow2 c * 5 ^ nat c"
    using assms(2) by (simp add: pow10_nat pow2_nat flip: power_mult_distrib)
  then have "x / pow10 (- c) = x * pow2 c * 5 ^ nat c"
    by (simp add: pow10_neg)
  also have "\<dots> = of_int (N * 5 ^ nat c)"
    by (simp add: assms(1))
  finally show ?thesis ..
qed

lemma pow10_le_pow2_neg: "0 \<le> c \<Longrightarrow> pow10 (- c) \<le> pow2 (- c)"
proof -
  assume c: "0 \<le> c"
  have "(2 :: rat) ^ nat c \<le> 10 ^ nat c"
    by (rule power_mono) simp_all
  then have "1 / (10 :: rat) ^ nat c \<le> 1 / 2 ^ nat c"
    by (simp add: frac_le)
  then show ?thesis
    using c by (simp add: pow10_neg pow2_neg pow10_nat pow2_nat)
qed

lemma pow2_1024_le: "pow2 1024 \<le> pow10 309"
  by (simp add: pow2_def pow10_def)

lemma binary64_dec_exp:
  assumes "fl r = Fin x" "0 < x"
  shows "- 1074 < dec_exp x" and "dec_exp x \<le> 309"
proof -
  from fl_range [OF assms(1)] assms(2) have r: "pow2 (- 1074) \<le> x" "x < pow2 1024"
    by simp_all
  have "pow10 (- 1074) \<le> pow2 (- 1074)"
    by (rule pow10_le_pow2_neg) simp
  also have "\<dots> \<le> x"
    by (rule r(1))
  also have "x < pow10 (dec_exp x)"
    using assms(2) by (rule dec_exp_bounds)
  finally show "- 1074 < dec_exp x"
    by (rule pow10_less_cancel)
  have "pow10 (dec_exp x - 1) \<le> x"
    using assms(2) by (rule dec_exp_bounds)
  also have "x < pow2 1024"
    by (rule r(2))
  also have "\<dots> \<le> pow10 309"
    by (rule pow2_1024_le)
  finally have "dec_exp x - 1 < 309"
    by (rule pow10_less_cancel)
  then show "dec_exp x \<le> 309"
    by simp
qed

lemma shortest_exists:
  assumes "fl r = Fin x" "0 < x"
  shows "shortest x (dec_exp x) 1 \<noteq> None"
proof -
  define k where "k = dec_exp x + 1074"
  from binary64_dec_exp [OF assms] have k: "1 \<le> k" "k < 1400"
    by (simp_all add: k_def)
  from fl_on_grid [OF assms(1)] obtain N :: int where N: "x * pow2 1074 = of_int N"
    by blast
  have "0 \<le> (1074 :: int)"
    by simp
  with N obtain T :: int where "x / pow10 (- 1074) = of_int T"
    using grid_decimal by blast
  moreover have "dec_exp x - k = - 1074"
    by (simp add: k_def)
  ultimately have "x / pow10 (dec_exp x - k) = of_int T"
    by simp
  with fl_idempotent [OF assms(1)] have "digits_k x (dec_exp x) k \<noteq> None"
    by (rule digits_k_exact)
  with k show ?thesis
    by (intro shortest_complete [of 1 k]) simp_all
qed
section \<open>Reading a decimal literal\<close>

lemma digit_not_special:
  assumes "is_digit c"
  shows "\<not> is_space c" and "c \<noteq> CHR ''-''" and "c \<noteq> CHR ''+''" and "c \<noteq> CHR ''I''"
    and "c \<noteq> CHR ''.''" and "c \<noteq> CHR ''e''" and "c \<noteq> CHR ''E''"
  using assms by (auto simp: is_digit_def is_space_def)

lemma span_digits:
  assumes "list_all is_digit a" "rest = [] \<or> \<not> is_digit (hd rest)"
  shows "takeWhile is_digit (a @ rest) = a" and "dropWhile is_digit (a @ rest) = rest"
  using assms by (induction a) (auto simp: takeWhile_eq_Nil_iff dropWhile_eq_self_iff)

lemma takeWhile_digits_all: "list_all is_digit c \<Longrightarrow> takeWhile is_digit c = c"
  by (simp add: takeWhile_eq_all_conv list_all_iff)

lemma parse_exponent_literal:
  assumes "list_all is_digit c" "sg = CHR ''+'' \<or> sg = CHR ''-''"
  shows "parse_exponent (CHR ''e'' # sg # c) = (if sg = CHR ''-'' then - read_int c else read_int c)"
  using assms(2) by (auto simp: parse_exponent_def takeWhile_digits_all [OF assms(1)])

lemma parseFloat_unsigned:
  assumes "dropWhile is_space S = S" "S \<noteq> []" "hd S \<noteq> CHR ''-''" "hd S \<noteq> CHR ''+''"
    "\<not> prefix ''Infinity'' S" "takeWhile is_digit S = ip" "dropWhile is_digit S = r1" "ip \<noteq> []"
  shows "parseFloat S =
    fl ((of_int (read_int ip)
         + of_int (read_int (if r1 \<noteq> [] \<and> hd r1 = CHR ''.'' then takeWhile is_digit (tl r1) else []))
           / 10 ^ length (if r1 \<noteq> [] \<and> hd r1 = CHR ''.'' then takeWhile is_digit (tl r1) else []))
        * pow10 (parse_exponent (if r1 \<noteq> [] \<and> hd r1 = CHR ''.'' then dropWhile is_digit (tl r1) else r1)))"
  by (simp add: parseFloat_def Let_def assms)

lemma parseFloat_literal:
  assumes "list_all is_digit (a0 # as)" "list_all is_digit b" "list_all is_digit c"
    "sg = CHR ''+'' \<or> sg = CHR ''-''"
  shows "parseFloat ((a0 # as) @ (if dot then CHR ''.'' # b else [])
           @ (if ex then CHR ''e'' # sg # c else []))
     = fl ((of_int (read_int (a0 # as)) + (if dot then of_int (read_int b) / 10 ^ length b else 0))
           * pow10 (if ex then (if sg = CHR ''-'' then - read_int c else read_int c) else 0))"
proof -
  define expo where "expo = (if ex then CHR ''e'' # sg # c else [])"
  define r1 where "r1 = (if dot then CHR ''.'' # b else []) @ expo"
  define S where "S = (a0 # as) @ r1"
  from assms(1) have d0: "is_digit a0"
    by simp
  note n0 = digit_not_special [OF d0]
  have expo_stop: "expo = [] \<or> \<not> is_digit (hd expo)"
    by (simp add: expo_def is_digit_def)
  have rest_stop: "r1 = [] \<or> \<not> is_digit (hd r1)"
    using expo_stop by (cases dot) (simp_all add: r1_def is_digit_def)
  have ip: "takeWhile is_digit S = a0 # as" and dr: "dropWhile is_digit S = r1"
    unfolding S_def using span_digits [OF assms(1) rest_stop] by simp_all
  have pe: "parse_exponent expo = (if ex then (if sg = CHR ''-'' then - read_int c else read_int c) else 0)"
    using parse_exponent_literal [OF assms(3,4)] by (simp add: expo_def parse_exponent_def)
  have sp: "dropWhile is_space S = S"
    using n0(1) by (simp add: S_def)
  have inf: "\<not> prefix ''Infinity'' S"
    using n0(4) by (simp add: S_def)
  have hd: "hd S \<noteq> CHR ''-''" "hd S \<noteq> CHR ''+''" "S \<noteq> []"
    using n0 by (simp_all add: S_def)
  note P = parseFloat_unsigned [OF sp hd(3) hd(1) hd(2) inf ip dr]
  have "parseFloat S
     = fl ((of_int (read_int (a0 # as)) + (if dot then of_int (read_int b) / 10 ^ length b else 0))
           * pow10 (parse_exponent expo))"
  proof (cases dot)
    case True
    then have r: "r1 = CHR ''.'' # b @ expo"
      by (simp add: r1_def)
    have "takeWhile is_digit (b @ expo) = b" "dropWhile is_digit (b @ expo) = expo"
      using span_digits [OF assms(2) expo_stop] by simp_all
    then show ?thesis
      using True by (simp add: P r)
  next
    case False
    then have r: "r1 = expo"
      by (simp add: r1_def)
    have nodot: "(expo \<noteq> [] \<and> hd expo = CHR ''.'') = False"
      by (simp add: expo_def)
    show ?thesis
      using False by (simp add: P r nodot)
  qed
  then have "parseFloat S
     = fl ((of_int (read_int (a0 # as)) + (if dot then of_int (read_int b) / 10 ^ length b else 0))
           * pow10 (if ex then (if sg = CHR ''-'' then - read_int c else read_int c) else 0))"
    by (simp only: pe)
  then show ?thesis
    by (simp add: S_def r1_def expo_def)
qed

lemma parseFloat_decimal:
  assumes "a \<noteq> []" "list_all is_digit a" "list_all is_digit b" "list_all is_digit c"
    "sg = CHR ''+'' \<or> sg = CHR ''-''"
  shows "parseFloat (a @ (if dot then CHR ''.'' # b else [])
           @ (if ex then CHR ''e'' # sg # c else []))
     = fl ((of_int (read_int a) + (if dot then of_int (read_int b) / 10 ^ length b else 0))
           * pow10 (if ex then (if sg = CHR ''-'' then - read_int c else read_int c) else 0))"
proof -
  from assms(1) obtain a0 as where a: "a = a0 # as"
    by (cases a) auto
  show ?thesis
    using parseFloat_literal [of a0 as b c sg dot ex] assms(2-5) unfolding a by simp
qed
section \<open>Reading what toString writes\<close>

lemma show_int_shape:
  assumes "10 ^ nat (k - 1) \<le> s" "s < 10 ^ nat k" "1 \<le> k"
  shows "list_all is_digit (show_int s)" and "length (show_int s) = nat k"
    and "read_int (show_int s) = s" and "show_int s \<noteq> []"
proof -
  have "(1 :: int) \<le> 10 ^ nat (k - 1)"
    by simp
  with assms(1) have s1: "1 \<le> s"
    by linarith
  then show "list_all is_digit (show_int s)" "show_int s \<noteq> []"
    using show_int_digits [of s] by simp_all
  from s1 show "read_int (show_int s) = s"
    by (simp add: read_show_int)
  have "Suc (nat (k - 1)) = nat k"
    using assms(3) by simp
  with assms(2) have "s < 10 ^ Suc (nat (k - 1))"
    by simp
  from ndigits_unique [OF assms(1) this] have "ndigits s = k"
    using assms(3) by simp
  with length_show_int [OF s1] show "length (show_int s) = nat k"
    by simp
qed

lemma read_int_split:
  "m \<le> length ds \<Longrightarrow>
   read_int ds = read_int (take m ds) * 10 ^ (length ds - m) + read_int (drop m ds)"
  using read_int_append [of "take m ds" "drop m ds"] by simp

lemma replicate_zero_digits: "list_all is_digit (replicate z CHR ''0'')"
  by (simp add: list_all_iff is_digit_def)

lemma parse_fixed_integer:
  assumes "list_all is_digit ds" "ds \<noteq> []"
  shows "parseFloat (ds @ replicate z CHR ''0'') = fl (of_int (read_int ds) * 10 ^ z)"
proof -
  have "parseFloat ((ds @ replicate z CHR ''0'') @ (if False then CHR ''.'' # [] else [])
      @ (if False then CHR ''e'' # CHR ''+'' # [] else []))
    = fl ((of_int (read_int (ds @ replicate z CHR ''0'')) + (if False then of_int (read_int []) / 10 ^ length ([] :: string) else 0))
        * pow10 (if False then (if CHR ''+'' = CHR ''-'' then - read_int [] else read_int []) else 0))"
    by (rule parseFloat_decimal) (use assms in \<open>simp_all add: replicate_zero_digits\<close>)
  then show ?thesis
    by (simp add: read_int_append pow10_def)
qed

lemma parse_fixed_fraction:
  assumes "list_all is_digit a" "a \<noteq> []" "list_all is_digit b"
  shows "parseFloat (a @ CHR ''.'' # b)
    = fl (of_int (read_int a) + of_int (read_int b) / 10 ^ length b)"
proof -
  have "parseFloat (a @ (if True then CHR ''.'' # b else [])
      @ (if False then CHR ''e'' # CHR ''+'' # [] else []))
    = fl ((of_int (read_int a) + (if True then of_int (read_int b) / 10 ^ length b else 0))
        * pow10 (if False then (if CHR ''+'' = CHR ''-'' then - read_int [] else read_int []) else 0))"
    by (rule parseFloat_decimal) (use assms in simp_all)
  then show ?thesis
    by (simp add: pow10_def)
qed

lemma parse_exponential:
  assumes "list_all is_digit a" "a \<noteq> []" "list_all is_digit b"
  shows "parseFloat (a @ (if dot then ''.'' @ b else [])
      @ ''e'' @ (if e < 0 then ''-'' else ''+'') @ show_int \<bar>e\<bar>)
    = fl ((of_int (read_int a) + (if dot then of_int (read_int b) / 10 ^ length b else 0))
        * pow10 e)"
proof -
  define sg where "sg = (if e < 0 then CHR ''-'' else CHR ''+'')"
  define c where "c = show_int \<bar>e\<bar>"
  have c: "list_all is_digit c" "read_int c = \<bar>e\<bar>"
    using show_int_digits [of "\<bar>e\<bar>"] by (simp_all add: c_def read_show_int)
  have sg: "sg = CHR ''+'' \<or> sg = CHR ''-''"
    by (simp add: sg_def)
  have main: "parseFloat (a @ (if dot then CHR ''.'' # b else [])
      @ (if True then CHR ''e'' # sg # c else []))
    = fl ((of_int (read_int a) + (if dot then of_int (read_int b) / 10 ^ length b else 0))
        * pow10 (if True then (if sg = CHR ''-'' then - read_int c else read_int c) else 0))"
    by (rule parseFloat_decimal) (use assms c sg in simp_all)
  have val: "(if True then (if sg = CHR ''-'' then - read_int c else read_int c) else 0) = e"
    by (simp add: sg_def c)
  have eq: "a @ (if dot then ''.'' @ b else [])
      @ ''e'' @ (if e < 0 then ''-'' else ''+'') @ show_int \<bar>e\<bar>
    = a @ (if dot then CHR ''.'' # b else []) @ (if True then CHR ''e'' # sg # c else [])"
    by (simp add: sg_def c_def)
  show ?thesis
    by (simp only: eq main val)
qed

lemma scale_split:
  fixes A B P Q :: rat
  assumes "P \<noteq> 0"
  shows "(A * P + B) * (Q / P) = (A + B / P) * Q"
  using assms by (simp add: field_simps)

lemma parse_render:
  assumes "10 ^ nat (k - 1) \<le> s" "s < 10 ^ nat k" "1 \<le> k"
  shows "parseFloat (render k s n) = fl (of_int s * pow10 (n - k))"
proof -
  define ds where "ds = show_int s"
  note sh = show_int_shape [OF assms, folded ds_def]
  consider (integer) "k \<le> n" "n \<le> 21"
    | (fraction) "n < k" "0 < n" "n \<le> 21"
    | (small) "- 6 < n" "n \<le> 0"
    | (exponent) "n \<le> - 6 \<or> 21 < n"
    by linarith
  then show ?thesis
  proof cases
    case integer
    then have "render k s n = ds @ replicate (nat (n - k)) CHR ''0''"
      by (simp add: render_def ds_def)
    then have "parseFloat (render k s n) = fl (of_int (read_int ds) * 10 ^ nat (n - k))"
      using sh(1,4) by (simp add: parse_fixed_integer)
    then show ?thesis
      using integer sh(3) by (simp add: pow10_nat)
  next
    case fraction
    then have r: "render k s n = take (nat n) ds @ CHR ''.'' # drop (nat n) ds"
      by (simp add: render_def ds_def Let_def)
    have le: "nat n \<le> length ds"
      using fraction sh(2) by simp
    have t: "list_all is_digit (take (nat n) ds)" "take (nat n) ds \<noteq> []"
      "list_all is_digit (drop (nat n) ds)"
      using sh(1,4) fraction
      by (auto simp: list_all_iff dest: in_set_takeD in_set_dropD)
    have len: "length (drop (nat n) ds) = nat (k - n)"
      using fraction sh(2) by simp
    have "of_int s = (of_int (read_int (take (nat n) ds)) * 10 ^ nat (k - n)
        + of_int (read_int (drop (nat n) ds)) :: rat)"
      using read_int_split [OF le] sh(2,3) len
      by (metis length_drop of_int_add of_int_mult of_int_numeral of_int_power)
    moreover have "pow10 (n - k) = 1 / 10 ^ nat (k - n)"
      using fraction pow10_neg [of "k - n"] by (simp add: pow10_nat)
    ultimately have v: "of_int s * pow10 (n - k)
        = of_int (read_int (take (nat n) ds))
          + of_int (read_int (drop (nat n) ds)) / 10 ^ nat (k - n)"
      using scale_split [of "10 ^ nat (k - n)" "of_int (read_int (take (nat n) ds))"
          "of_int (read_int (drop (nat n) ds))" 1]
      by simp
    have "parseFloat (render k s n) = fl (of_int (read_int (take (nat n) ds))
          + of_int (read_int (drop (nat n) ds)) / 10 ^ length (drop (nat n) ds))"
      unfolding r by (rule parse_fixed_fraction [OF t])
    then show ?thesis
      by (simp only: v len)
  next
    case small
    then have r: "render k s n = ''0'' @ CHR ''.'' # (replicate (nat (- n)) CHR ''0'' @ ds)"
      using assms(3) by (simp add: render_def ds_def Let_def)
    have z: "list_all is_digit ''0''" "''0'' \<noteq> []"
      by (simp_all add: is_digit_def)
    have b: "list_all is_digit (replicate (nat (- n)) CHR ''0'' @ ds)"
      using sh(1) by (simp add: replicate_zero_digits)
    have len: "length (replicate (nat (- n)) CHR ''0'' @ ds) = nat (k - n)"
      using small assms(3) sh(2) by simp
    have v: "read_int (replicate (nat (- n)) CHR ''0'' @ ds) = s"
      by (simp add: read_int_append sh(3))
    have zero: "read_int ''0'' = 0"
      by (simp add: read_int_def digit_val_def)
    have pw: "pow10 (n - k) = 1 / 10 ^ nat (k - n)"
      using small assms(3) pow10_neg [of "k - n"] by (simp add: pow10_nat)
    have "parseFloat (render k s n) = fl (of_int (read_int ''0'')
          + of_int (read_int (replicate (nat (- n)) CHR ''0'' @ ds))
            / 10 ^ length (replicate (nat (- n)) CHR ''0'' @ ds))"
      unfolding r by (rule parse_fixed_fraction [OF z b])
    then show ?thesis
      by (simp only: len v zero pw) simp
  next
    case exponent
    show ?thesis
    proof (cases "k = 1")
      case True
      with exponent have r: "render k s n = ds @ (if False then ''.'' @ [] else [])
          @ ''e'' @ (if n - 1 < 0 then ''-'' else ''+'') @ show_int \<bar>n - 1\<bar>"
        by (auto simp: render_def ds_def Let_def)
      have "parseFloat (render k s n)
          = fl ((of_int (read_int ds) + (if False then of_int (read_int []) / 10 ^ length ([] :: string) else 0))
                * pow10 (n - 1))"
        unfolding r by (rule parse_exponential [OF sh(1) sh(4)]) simp
      then show ?thesis
        using True by (simp add: sh(3))
    next
      case False
      with exponent assms(3) have r: "render k s n = take 1 ds @ (if True then ''.'' @ drop 1 ds else [])
          @ ''e'' @ (if n - 1 < 0 then ''-'' else ''+'') @ show_int \<bar>n - 1\<bar>"
        by (auto simp: render_def ds_def Let_def)
      have le: "1 \<le> length ds"
        using assms(3) sh(2) by simp
      have t: "list_all is_digit (take 1 ds)" "take 1 ds \<noteq> []"
        "list_all is_digit (drop 1 ds)"
        using sh(1,4)
        by (auto simp: list_all_iff dest: in_set_takeD in_set_dropD)
      have len: "length (drop 1 ds) = nat (k - 1)"
        using assms(3) sh(2) by simp
      have "of_int s = (of_int (read_int (take 1 ds)) * 10 ^ nat (k - 1)
          + of_int (read_int (drop 1 ds)) :: rat)"
        using read_int_split [OF le] sh(2,3) len
        by (metis length_drop of_int_add of_int_mult of_int_numeral of_int_power)
      moreover have "pow10 (n - k) = pow10 (n - 1) / 10 ^ nat (k - 1)"
        using assms(3) pow10_add [of "n - 1" "- (k - 1)"] pow10_neg [of "k - 1"]
        by (simp add: pow10_nat)
      ultimately have v: "of_int s * pow10 (n - k)
          = (of_int (read_int (take 1 ds)) + of_int (read_int (drop 1 ds)) / 10 ^ nat (k - 1))
            * pow10 (n - 1)"
        using scale_split [of "10 ^ nat (k - 1)" "of_int (read_int (take 1 ds))"
            "of_int (read_int (drop 1 ds))" "pow10 (n - 1)"]
        by simp
      have "parseFloat (render k s n)
          = fl ((of_int (read_int (take 1 ds))
                  + (if True then of_int (read_int (drop 1 ds)) / 10 ^ length (drop 1 ds) else 0))
                * pow10 (n - 1))"
        unfolding r by (rule parse_exponential [OF t])
      then show ?thesis
        by (simp only: v len if_True)
    qed
  qed
qed
section \<open>The round trip through toString and parseFloat\<close>

lemma render_head:
  assumes "10 ^ nat (k - 1) \<le> s" "s < 10 ^ nat k" "1 \<le> k"
  shows "render k s n \<noteq> []" and "is_digit (hd (render k s n))"
proof -
  define ds where "ds = show_int s"
  note sh = show_int_shape [OF assms, folded ds_def]
  from sh(1,4) have d: "is_digit (hd ds)"
    by (cases ds) simp_all
  have z: "is_digit CHR ''0''"
    by (simp add: is_digit_def)
  have t: "0 < m \<Longrightarrow> take m ds \<noteq> [] \<and> hd (take m ds) = hd ds" for m
    using sh(4) by (cases ds; cases m) simp_all
  show "render k s n \<noteq> []"
    using sh(4) by (simp add: render_def ds_def [symmetric] Let_def)
  show "is_digit (hd (render k s n))"
    using sh(4) d z t [of "nat n"] t [of 1]
    by (simp add: render_def ds_def [symmetric] Let_def hd_append)
qed

lemma parseFloat_minus:
  assumes "str \<noteq> []" "is_digit (hd str)"
  shows "parseFloat (CHR ''-'' # str) = jneg (parseFloat str)"
proof -
  note n = digit_not_special [OF assms(2)]
  have sp: "dropWhile is_space str = str"
    using assms(1) n(1) by (cases str) simp_all
  have sm: "dropWhile is_space (CHR ''-'' # str) = CHR ''-'' # str"
    by (simp add: is_space_def)
  have inf: "\<not> prefix ''Infinity'' str"
    using assms(1) n(4) by (cases str) simp_all
  show ?thesis
    unfolding parseFloat_def sp sm using assms(1) n(2,3) inf
    by (simp add: Let_def fl_minus)
qed

lemma parseFloat_toString_pos:
  assumes "fl r = Fin x" "0 < x"
  shows "parseFloat (toString_pos x) = Fin x"
    and "toString_pos x \<noteq> []" and "is_digit (hd (toString_pos x))"
proof -
  from shortest_exists [OF assms] obtain k s n
    where sh: "shortest x (dec_exp x) 1 = Some (k, s, n)"
    by auto
  from shortest_sound [OF sh] have k: "1 \<le> k" and d: "digits_k x (dec_exp x) k = Some (s, n)"
    by simp_all
  note b = dec_exp_bounds [OF assms(2)]
  note snd = digits_k_sound [OF d k b]
  have ts: "toString_pos x = render k s n"
    by (simp add: toString_pos_def sh)
  show "parseFloat (toString_pos x) = Fin x"
    unfolding ts parse_render [OF snd(2,3) k] by (rule snd(1))
  show "toString_pos x \<noteq> []" "is_digit (hd (toString_pos x))"
    unfolding ts by (rule render_head [OF snd(2,3) k])+
qed

lemma parseFloat_toString_Fin:
  assumes "fl r = Fin x"
  shows "parseFloat (toString (Fin x)) = Fin x"
proof -
  consider "x = 0" | "0 < x" | "x < 0"
    by linarith
  then show ?thesis
  proof cases
    case 1
    have "parseFloat ''0'' = Fin 0"
      by code_simp
    with 1 show ?thesis
      by simp
  next
    case 2
    with parseFloat_toString_pos(1) [OF assms] show ?thesis
      by simp
  next
    case 3
    from assms have "fl (- r) = Fin (- x)"
      by (simp add: fl_minus)
    from parseFloat_toString_pos [OF this] 3 have
      "parseFloat (toString_pos (- x)) = Fin (- x)" "toString_pos (- x) \<noteq> []"
      "is_digit (hd (toString_pos (- x)))"
      by simp_all
    with 3 show ?thesis
      by (simp add: parseFloat_minus)
  qed
qed

text \<open>The numbers of the program: NaN, and what \<open>fl\<close> returns.\<close>

lemma parseFloat_toString:
  assumes "v = NaN \<or> v = PInf \<or> v = NInf \<or> v = fl r"
  shows "parseFloat (toString v) = v"
proof (cases v)
  case (Fin x)
  with assms have "fl r = Fin x"
    by simp
  then show ?thesis
    unfolding Fin by (rule parseFloat_toString_Fin)
next
  case PInf
  have "parseFloat ''Infinity'' = PInf"
    by code_simp
  with PInf show ?thesis
    by simp
next
  case NInf
  have "parseFloat ''-Infinity'' = NInf"
    by code_simp
  with NInf show ?thesis
    by simp
next
  case NaN
  have "parseFloat ''NaN'' = NaN"
    by code_simp
  with NaN show ?thesis
    by simp
qed

lemma parseFloat_range:
  "parseFloat str = NaN \<or> parseFloat str = PInf \<or> parseFloat str = NInf
   \<or> (\<exists>r. parseFloat str = fl r)"
  by (auto simp: parseFloat_def Let_def signed_inf_def)

lemma fl_zero: "fl 0 = Fin 0"
  by (simp add: fl_def)

lemma or_zero_range:
  assumes "v = NaN \<or> v = PInf \<or> v = NInf \<or> (\<exists>r. v = fl r)"
  shows "or_zero v = PInf \<or> or_zero v = NInf \<or> (\<exists>r. or_zero v = fl r)"
  using assms fl_zero by (auto simp: or_zero_def) metis+

lemma jadd_range:
  assumes "a = PInf \<or> a = NInf \<or> (\<exists>r. a = fl r)" "b = PInf \<or> b = NInf \<or> (\<exists>r. b = fl r)"
  shows "jadd a b = NaN \<or> jadd a b = PInf \<or> jadd a b = NInf \<or> (\<exists>r. jadd a b = fl r)"
  by (cases a; cases b) auto

lemma base_amount_round_trip:
  "or_zero (parseFloat (withoutPgaAmount invoice duties))
     = or_zero (jadd (or_zero (parseFloat invoice)) (or_zero (parseFloat duties)))"
proof -
  define v where "v = jadd (or_zero (parseFloat invoice)) (or_zero (parseFloat duties))"
  have "v = NaN \<or> v = PInf \<or> v = NInf \<or> (\<exists>r. v = fl r)"
    unfolding v_def
    by (intro jadd_range or_zero_range parseFloat_range)
  then obtain r where "v = NaN \<or> v = PInf \<or> v = NInf \<or> v = fl r"
    by blast
  then have "parseFloat (toString v) = v"
    by (rule parseFloat_toString)
  then show ?thesis
    by (simp add: withoutPgaAmount_def Let_def v_def)
qed
section \<open>Properties of the standard-entry calculation\<close>

lemma min_billing_note_amount:
  "includes_str (min_billing_note m) (''$'' @ toFixed m 2)"
  unfolding includes_str_def min_billing_note_def sublist_def
  by (intro exI [of _ "''Note: A minimum billing of ''"] exI [of _ "'' usually applies.''"]) simp

text \<open>
  C1 (amended). For the texts of the two inputs and a configuration, the calculation of
  a standard entry works on the base amount: the sum of the two inputs, an input that
  does not parse, or parses to zero, counting as 0, and so does a sum that is NaN (the sum
  of opposite infinities). The base amount survives the passage through the string
  \<open>withoutPgaAmount\<close>. The sell output is \<open>toFixed(6)\<close> of
  \<open>(baseAmount * sellRatePercent) / 100\<close>, whatever the minimum billing is, and the buy
  output is \<open>toFixed(6)\<close> of \<open>(baseAmount * buyRateMultiplier) / 1000\<close>; \<open>toFixed(6)\<close> gives six
  decimal digits for a finite number of magnitude less than \<open>10^21\<close>. The entry is below
  the minimum when the base amount is positive and the sell value is less than the
  minimum billing; the warning is there exactly then, and it holds \<open>$\<close> and the minimum
  billing with two decimal digits.
\<close>

theorem standard_entry_calculation:
  "(let inv = or_zero (parseFloat invoice);
        dut = or_zero (parseFloat duties);
        baseAmount = or_zero (jadd inv dut);
        sellVal = jdiv (jmul baseAmount (sellRatePercent cfg)) (Fin 100);
        buyVal = jdiv (jmul baseAmount (buyRateMultiplier cfg)) (Fin 1000);
        results = withoutPgaResults cfg (withoutPgaAmount invoice duties)
    in or_zero (parseFloat (withoutPgaAmount invoice duties)) = baseAmount
       \<and> sell results = toFixed sellVal 6
       \<and> buy results = toFixed buyVal 6
       \<and> isBelowMin results = (jless (Fin 0) baseAmount \<and> jless sellVal (minBilling cfg))
       \<and> sellWarning results =
           (if isBelowMin results then Some (min_billing_note (minBilling cfg)) else None)
       \<and> (\<forall>x. sellVal = Fin x \<and> \<bar>x\<bar> < pow10 21 \<longrightarrow> fixed_decimals 6 (sell results))
       \<and> (\<forall>x. buyVal = Fin x \<and> \<bar>x\<bar> < pow10 21 \<longrightarrow> fixed_decimals 6 (buy results)))
   \<and> includes_str (min_billing_note (minBilling cfg)) (''$'' @ toFixed (minBilling cfg) 2)"
proof -
  have fixed: "v = Fin x \<Longrightarrow> \<bar>x\<bar> < pow10 21 \<Longrightarrow> fixed_decimals 6 (toFixed v 6)" for v x
    by (simp add: toFixed_fixed_decimals)
  have "includes_str (min_billing_note (minBilling cfg)) (''$'' @ toFixed (minBilling cfg) 2)"
    by (rule min_billing_note_amount)
  then show ?thesis
    unfolding Let_def withoutPgaResults_def base_amount_round_trip
    by (auto intro: fixed)
qed

theorem standard_entry_calculation_witness:
  "withoutPgaAmount ''1000'' ''0'' = ''1000''
   \<and> withoutPgaResults DEFAULT_SETTINGS (withoutPgaAmount ''1000'' ''0'')
     = \<lparr> buy = ''0.990000'', sell = ''4.000000'', isBelowMin = True,
         sellWarning = Some ''Note: A minimum billing of $65.00 usually applies.'' \<rparr>
   \<and> fixed_decimals 6 (sell (withoutPgaResults DEFAULT_SETTINGS (withoutPgaAmount ''1000'' ''0'')))
   \<and> fixed_decimals 6 (buy (withoutPgaResults DEFAULT_SETTINGS (withoutPgaAmount ''1000'' ''0'')))"
proof -
  define results where "results = withoutPgaResults DEFAULT_SETTINGS (withoutPgaAmount ''1000'' ''0'')"
  have amount: "or_zero (jadd (or_zero (parseFloat ''1000'')) (or_zero (parseFloat ''0''))) = Fin 1000"
    by code_simp
  have shown: "withoutPgaAmount ''1000'' ''0'' = ''1000''"
    by code_simp
  have sv: "jdiv (jmul (Fin 1000) (sellRatePercent DEFAULT_SETTINGS)) (Fin 100) = Fin 4"
    by code_simp
  have st: "toFixed (Fin 4) 6 = ''4.000000''"
    by code_simp
  have bt: "toFixed (jdiv (jmul (Fin 1000) (buyRateMultiplier DEFAULT_SETTINGS)) (Fin 1000)) 6
      = ''0.990000''"
    by code_simp
  have "case jdiv (jmul (Fin 1000) (buyRateMultiplier DEFAULT_SETTINGS)) (Fin 1000) of
      Fin x \<Rightarrow> \<bar>x\<bar> < pow10 21 | _ \<Rightarrow> False"
    by code_simp
  then obtain y where bv: "jdiv (jmul (Fin 1000) (buyRateMultiplier DEFAULT_SETTINGS)) (Fin 1000) = Fin y"
      "\<bar>y\<bar> < pow10 21"
    by (cases "jdiv (jmul (Fin 1000) (buyRateMultiplier DEFAULT_SETTINGS)) (Fin 1000)") auto
  have less: "jless (Fin 0) (Fin 1000) \<and> jless (Fin 4) (minBilling DEFAULT_SETTINGS)"
    by code_simp
  have notice: "min_billing_note (minBilling DEFAULT_SETTINGS)
      = ''Note: A minimum billing of $65.00 usually applies.''"
    by code_simp
  have small: "\<bar>4 :: rat\<bar> < pow10 21"
    by code_simp
  note T = standard_entry_calculation [of "''1000''" "''0''" DEFAULT_SETTINGS,
      unfolded Let_def amount sv st bt, folded results_def]
  from T have s: "sell results = ''4.000000''"
    by (elim conjE)
  from T have b: "buy results = ''0.990000''"
    by (elim conjE)
  from T less have m: "isBelowMin results"
    by (elim conjE) simp
  from T m have w: "sellWarning results = Some ''Note: A minimum billing of $65.00 usually applies.''"
    unfolding notice by (elim conjE) simp
  from T small have fs: "fixed_decimals 6 (sell results)"
    by (elim conjE) blast
  from T bv have fb: "fixed_decimals 6 (buy results)"
    by (elim conjE) blast
  have "results = \<lparr> buy = ''0.990000'', sell = ''4.000000'', isBelowMin = True,
         sellWarning = Some ''Note: A minimum billing of $65.00 usually applies.'' \<rparr>"
    using s b m w by (cases results) simp
  with shown fs fb show ?thesis
    unfolding results_def by (intro conjI)
qed

theorem large_amount_in_exponent_notation_counterexample:
  "withoutPgaAmount ''1e27'' '''' = ''1e+27''
   \<and> sell (withoutPgaResults DEFAULT_SETTINGS (withoutPgaAmount ''1e27'' '''')) = ''4e+24''
   \<and> buy (withoutPgaResults DEFAULT_SETTINGS (withoutPgaAmount ''1e27'' '''')) = ''9.9e+23''
   \<and> \<not> fixed_decimals 6 ''4e+24''
   \<and> \<not> fixed_decimals 6 ''9.9e+23''"
  by code_simp

end
